theory Spec2Isabelle
  imports Main "HOL-Library.Word"
begin

section \<open>Data model\<close>

text \<open>
  A hash is a 32-byte buffer, an address is its string form. A transaction carries its
  hash, the outpoints it spends and its outputs (value, address); a coinbase has no input.
\<close>

type_synonym hash = "8 word list"
type_synonym address = string
type_synonym outpoint = "hash \<times> nat"

record tx =
  tx_hash :: hash
  tx_inputs :: "outpoint list"
  tx_outputs :: "(nat \<times> address) list"

record txmeta =
  meta_tx :: tx
  meta_height :: int
  meta_block :: "hash option"
  meta_time :: nat

record coin =
  coin_hash :: hash
  coin_index :: nat
  coin_value :: nat
  coin_address :: address
  coin_height :: int
  coin_coinbase :: bool

type_synonym coinview = "outpoint \<rightharpoonup> coin"

text \<open>
  A JavaScript error value: an \<open>Error\<close> with its message and its optional
  \<open>statusCode\<close> property, or the assertion failure raised by \<open>assert\<close>.
\<close>

datatype js_error = Error string "int option" | AssertionError

text \<open>
  The argument \<open>addrs\<close> is dynamically typed in the source: one value or an array of
  values, each either a parsed \<open>Address\<close> object or a string taken from the request
  as it came.
\<close>

datatype addr_item = AddressObj address | RawStr string

datatype addr_arg = Single addr_item | Many "addr_item list"

section \<open>The collaborators of the aggregator\<close>

text \<open>
  The three sub-indexes and the chain are objects the aggregator only calls. Each is a
  record of its methods; a method that rejects or throws returns \<open>Inl\<close>, \<open>null\<close> is
  \<open>None\<close>.
\<close>

record mempool_indexer =
  mp_hasTX :: "hash \<Rightarrow> bool"
  mp_getMeta :: "hash \<Rightarrow> js_error + txmeta option"
  mp_getSpentView :: "tx \<Rightarrow> js_error + coinview"
  mp_getMetaByAddress :: "addr_arg \<Rightarrow> js_error + txmeta list"

record tx_indexer =
  ti_hasTX :: "hash \<Rightarrow> js_error + bool"
  ti_getMeta :: "hash \<Rightarrow> js_error + txmeta option"
  ti_getSpentView :: "tx \<Rightarrow> js_error + coinview"

record addr_indexer =
  ai_getHashesByAddress :: "addr_item list \<Rightarrow> js_error + hash list"
  ai_getCoinsByAddress :: "addr_arg \<Rightarrow> js_error + coin list"

record chain_engine =
  ch_height :: int
  ch_getCoinView :: "tx \<Rightarrow> js_error + coinview"

text \<open>Every call the aggregator makes on a collaborator, in the order it makes them.\<close>

datatype call =
    MempoolHasTX hash
  | MempoolGetMeta hash
  | MempoolGetSpentView tx
  | MempoolGetMetaByAddress addr_arg
  | TxHasTX hash
  | TxGetMeta hash
  | TxGetSpentView tx
  | AddrGetHashesByAddress "addr_item list"
  | AddrGetCoinsByAddress addr_arg
  | ChainGetCoinView tx

text \<open>The facade: \<open>txindex\<close> and \<open>addrindex\<close> are \<open>null\<close> unless configured.\<close>

record fullnodeindexer =
  chain :: chain_engine
  mempoolindex :: mempool_indexer
  spv :: bool
  txindex :: "tx_indexer option"
  addrindex :: "addr_indexer option"

section \<open>The aggregator's read methods (fullnodeindexer.js)\<close>

text \<open>
  Each method returns the calls it made on its collaborators and its outcome: the
  resolved value, or the error it rejects with.
\<close>

type_synonym 'a outcome = "call list \<times> (js_error + 'a)"

definition hasTX :: "fullnodeindexer \<Rightarrow> hash \<Rightarrow> bool outcome" where
  "hasTX this h =
     (if mp_hasTX (mempoolindex this) h then ([MempoolHasTX h], Inr True)
      else (case txindex this of
              Some ti \<Rightarrow> ([MempoolHasTX h, TxHasTX h], ti_hasTX ti h)
            | None \<Rightarrow> ([MempoolHasTX h], Inr False)))"

definition getMeta :: "fullnodeindexer \<Rightarrow> hash \<Rightarrow> txmeta option outcome" where
  "getMeta this h =
     (case mp_getMeta (mempoolindex this) h of
        Inl e \<Rightarrow> ([MempoolGetMeta h], Inl e)
      | Inr (Some meta) \<Rightarrow> ([MempoolGetMeta h], Inr (Some meta))
      | Inr None \<Rightarrow>
          (case txindex this of
             Some ti \<Rightarrow> ([MempoolGetMeta h, TxGetMeta h], ti_getMeta ti h)
           | None \<Rightarrow> ([MempoolGetMeta h], Inr None)))"

definition getTX :: "fullnodeindexer \<Rightarrow> hash \<Rightarrow> tx option outcome" where
  "getTX this h =
     (case getMeta this h of
        (calls, Inl e) \<Rightarrow> (calls, Inl e)
      | (calls, Inr None) \<Rightarrow> (calls, Inr None)
      | (calls, Inr (Some mtx)) \<Rightarrow> (calls, Inr (Some (meta_tx mtx))))"

definition getMetaView :: "fullnodeindexer \<Rightarrow> txmeta \<Rightarrow> coinview outcome" where
  "getMetaView this meta =
     (if meta_height meta = - 1 then
        ([MempoolGetSpentView (meta_tx meta)],
         mp_getSpentView (mempoolindex this) (meta_tx meta))
      else
        (case txindex this of
           Some ti \<Rightarrow> ([TxGetSpentView (meta_tx meta)], ti_getSpentView ti (meta_tx meta))
         | None \<Rightarrow>
             ([ChainGetCoinView (meta_tx meta)],
              ch_getCoinView (chain this) (meta_tx meta))))"

text \<open>
  The loop of \<open>getMetaByAddress\<close> over the hashes of the address index: \<open>mtxs\<close> is
  the array pushed to, \<open>assert(mtx)\<close> throws on a missing entry.
\<close>

fun collectMeta :: "tx_indexer \<Rightarrow> hash list \<Rightarrow> txmeta list \<Rightarrow> txmeta list outcome" where
  "collectMeta ti [] mtxs = ([], Inr mtxs)"
| "collectMeta ti (h # hashes) mtxs =
     (case ti_getMeta ti h of
        Inl e \<Rightarrow> ([TxGetMeta h], Inl e)
      | Inr None \<Rightarrow> ([TxGetMeta h], Inl AssertionError)
      | Inr (Some mtx) \<Rightarrow>
          (case collectMeta ti hashes (mtxs @ [mtx]) of
             (calls, r) \<Rightarrow> (TxGetMeta h # calls, r)))"

text \<open>
  \<open>if (!Array.isArray(addrs)) addrs = [addrs]\<close>. The mempool index is asked first, with
  the argument as it came, and its answer is used as an array without \<open>await\<close>.
\<close>

definition toArray :: "addr_arg \<Rightarrow> addr_item list" where
  "toArray addrs = (case addrs of Single a \<Rightarrow> [a] | Many as \<Rightarrow> as)"

definition getMetaByAddress :: "fullnodeindexer \<Rightarrow> addr_arg \<Rightarrow> txmeta list outcome" where
  "getMetaByAddress this addrs =
     (case mp_getMetaByAddress (mempoolindex this) addrs of
        Inl e \<Rightarrow> ([MempoolGetMetaByAddress addrs], Inl e)
      | Inr mempool \<Rightarrow>
          (case (txindex this, addrindex this) of
             (Some ti, Some ai) \<Rightarrow>
               (case ai_getHashesByAddress ai (toArray addrs) of
                  Inl e \<Rightarrow>
                    ([MempoolGetMetaByAddress addrs,
                      AddrGetHashesByAddress (toArray addrs)], Inl e)
                | Inr hashes \<Rightarrow>
                    (case collectMeta ti hashes [] of
                       (calls, Inl e) \<Rightarrow>
                         ([MempoolGetMetaByAddress addrs,
                           AddrGetHashesByAddress (toArray addrs)] @ calls, Inl e)
                     | (calls, Inr mtxs) \<Rightarrow>
                         ([MempoolGetMetaByAddress addrs,
                           AddrGetHashesByAddress (toArray addrs)] @ calls,
                          Inr (mtxs @ mempool))))
           | _ \<Rightarrow> ([MempoolGetMetaByAddress addrs], Inr mempool)))"

definition getTXByAddress :: "fullnodeindexer \<Rightarrow> addr_arg \<Rightarrow> tx list outcome" where
  "getTXByAddress this addrs =
     (case getMetaByAddress this addrs of
        (calls, Inl e) \<Rightarrow> (calls, Inl e)
      | (calls, Inr mtxs) \<Rightarrow> (calls, Inr (map meta_tx mtxs)))"

definition getCoinsByAddress :: "fullnodeindexer \<Rightarrow> addr_arg \<Rightarrow> coin list outcome" where
  "getCoinsByAddress this addrs =
     (case addrindex this of
        Some ai \<Rightarrow> ([AddrGetCoinsByAddress addrs], ai_getCoinsByAddress ai addrs)
      | None \<Rightarrow> ([], Inr []))"

section \<open>The HTTP query handlers (fullnodeindexer.js, constructor)\<close>

text \<open>
  A request is what \<open>Validator.fromRequest(req)\<close> answers for it: \<open>valid.str\<close>,
  \<open>valid.array\<close> and \<open>valid.brhash\<close> each return the value, \<open>null\<close> for a parameter
  that is not there, or throw the validator's own error for a value of the wrong shape.
  The elements of an array are handed on as they came.
\<close>

record request =
  req_str :: "string \<Rightarrow> js_error + string option"
  req_array :: "string \<Rightarrow> js_error + string list option"
  req_brhash :: "string \<Rightarrow> js_error + hash option"

text \<open>What \<open>res.json\<close> is called with; a coin or a meta stands for its JSON form.\<close>

datatype body =
    NoBody
  | Coins "coin list"
  | Meta txmeta coinview int
  | Metas "(txmeta \<times> coinview \<times> int) list"

datatype response = Json int body

definition enforce :: "bool \<Rightarrow> string \<Rightarrow> js_error + unit" where
  "enforce v msg = (if \<not> v then Inl (Error msg (Some 400)) else Inr ())"

text \<open>
  The truth value JavaScript gives the argument of \<open>enforce\<close>: \<open>null\<close> and the empty
  string are false, every array and every buffer is true.
\<close>

definition truthy_str :: "string option \<Rightarrow> bool" where
  "truthy_str v = (case v of None \<Rightarrow> False | Some s \<Rightarrow> s \<noteq> [])"

definition truthy_obj :: "'a option \<Rightarrow> bool" where
  "truthy_obj v = (case v of None \<Rightarrow> False | Some x \<Rightarrow> True)"

text \<open>
  The string, the array or the buffer behind a value that passed \<open>enforce\<close> (which
  \<open>null\<close> does not).
\<close>

definition str_value :: "string option \<Rightarrow> string" where
  "str_value v = (case v of None \<Rightarrow> [] | Some s \<Rightarrow> s)"

definition arr_value :: "string list option \<Rightarrow> string list" where
  "arr_value v = (case v of None \<Rightarrow> [] | Some xs \<Rightarrow> xs)"

definition buf_value :: "hash option \<Rightarrow> hash" where
  "buf_value v = (case v of None \<Rightarrow> [] | Some h \<Rightarrow> h)"

text \<open>
  The loop \<open>for (const meta of metas)\<close> of the two handlers that list transactions: one
  \<open>getMetaView\<close> per meta, the first rejection ends it.
\<close>

fun viewAll :: "fullnodeindexer \<Rightarrow> txmeta list \<Rightarrow> (txmeta \<times> coinview \<times> int) list \<Rightarrow>
    (txmeta \<times> coinview \<times> int) list outcome" where
  "viewAll this [] result = ([], Inr result)"
| "viewAll this (meta # metas) result =
     (case getMetaView this meta of
        (calls, Inl e) \<Rightarrow> (calls, Inl e)
      | (calls, Inr view) \<Rightarrow>
          (case viewAll this metas (result @ [(meta, view, ch_height (chain this))]) of
             (calls', r) \<Rightarrow> (calls @ calls', r)))"

text \<open>
  \<open>GET /coin/address/:address\<close>. \<open>fromString\<close> is \<open>Address.fromString\<close> as the
  handler calls it, which throws on a string it cannot parse. A handler that throws
  having made no call has thrown before it reached the aggregator.
\<close>

definition getCoinAddress ::
    "fullnodeindexer \<Rightarrow> (string \<Rightarrow> js_error + address) \<Rightarrow> request \<Rightarrow> response outcome" where
  "getCoinAddress this fromString req =
     (case req_str req ''address'' of
        Inl e \<Rightarrow> ([], Inl e)
      | Inr address \<Rightarrow>
     (case enforce (truthy_str address) ''Address is required.'' of
        Inl e \<Rightarrow> ([], Inl e)
      | Inr _ \<Rightarrow>
     (case enforce (\<not> spv this) ''Cannot get coins in SPV mode.'' of
        Inl e \<Rightarrow> ([], Inl e)
      | Inr _ \<Rightarrow>
     (case fromString (str_value address) of
        Inl e \<Rightarrow> ([], Inl e)
      | Inr addr \<Rightarrow>
     (case getCoinsByAddress this (Single (AddressObj addr)) of
        (calls, Inl e) \<Rightarrow> (calls, Inl e)
      | (calls, Inr coins) \<Rightarrow> (calls, Inr (Json 200 (Coins coins))))))))"

text \<open>\<open>POST /coin/address\<close>: the array goes to the aggregator as it is.\<close>

definition postCoinAddress :: "fullnodeindexer \<Rightarrow> request \<Rightarrow> response outcome" where
  "postCoinAddress this req =
     (case req_array req ''addresses'' of
        Inl e \<Rightarrow> ([], Inl e)
      | Inr address \<Rightarrow>
     (case enforce (truthy_obj address) ''Address is required.'' of
        Inl e \<Rightarrow> ([], Inl e)
      | Inr _ \<Rightarrow>
     (case enforce (\<not> spv this) ''Cannot get coins in SPV mode.'' of
        Inl e \<Rightarrow> ([], Inl e)
      | Inr _ \<Rightarrow>
     (case getCoinsByAddress this (Many (map RawStr (arr_value address))) of
        (calls, Inl e) \<Rightarrow> (calls, Inl e)
      | (calls, Inr coins) \<Rightarrow> (calls, Inr (Json 200 (Coins coins)))))))"

text \<open>\<open>GET /tx/:hash\<close>: 404 when no index has the hash.\<close>

definition getTxHash :: "fullnodeindexer \<Rightarrow> request \<Rightarrow> response outcome" where
  "getTxHash this req =
     (case req_brhash req ''hash'' of
        Inl e \<Rightarrow> ([], Inl e)
      | Inr h \<Rightarrow>
     (case enforce (truthy_obj h) ''Hash is required.'' of
        Inl e \<Rightarrow> ([], Inl e)
      | Inr _ \<Rightarrow>
     (case enforce (\<not> spv this) ''Cannot get TX in SPV mode.'' of
        Inl e \<Rightarrow> ([], Inl e)
      | Inr _ \<Rightarrow>
     (case getMeta this (buf_value h) of
        (calls, Inl e) \<Rightarrow> (calls, Inl e)
      | (calls, Inr None) \<Rightarrow> (calls, Inr (Json 404 NoBody))
      | (calls, Inr (Some meta)) \<Rightarrow>
     (case getMetaView this meta of
        (calls', Inl e) \<Rightarrow> (calls @ calls', Inl e)
      | (calls', Inr view) \<Rightarrow>
          (calls @ calls', Inr (Json 200 (Meta meta view (ch_height (chain this))))))))))"

text \<open>\<open>GET /tx/address/:address\<close>.\<close>

definition getTxAddress ::
    "fullnodeindexer \<Rightarrow> (string \<Rightarrow> js_error + address) \<Rightarrow> request \<Rightarrow> response outcome" where
  "getTxAddress this fromString req =
     (case req_str req ''address'' of
        Inl e \<Rightarrow> ([], Inl e)
      | Inr address \<Rightarrow>
     (case enforce (truthy_str address) ''Address is required.'' of
        Inl e \<Rightarrow> ([], Inl e)
      | Inr _ \<Rightarrow>
     (case enforce (\<not> spv this) ''Cannot get TX in SPV mode.'' of
        Inl e \<Rightarrow> ([], Inl e)
      | Inr _ \<Rightarrow>
     (case fromString (str_value address) of
        Inl e \<Rightarrow> ([], Inl e)
      | Inr addr \<Rightarrow>
     (case getMetaByAddress this (Single (AddressObj addr)) of
        (calls, Inl e) \<Rightarrow> (calls, Inl e)
      | (calls, Inr metas) \<Rightarrow>
     (case viewAll this metas [] of
        (calls', Inl e) \<Rightarrow> (calls @ calls', Inl e)
      | (calls', Inr result) \<Rightarrow> (calls @ calls', Inr (Json 200 (Metas result)))))))))"

text \<open>\<open>POST /tx/address\<close>: the array goes to the aggregator as it is.\<close>

definition postTxAddress :: "fullnodeindexer \<Rightarrow> request \<Rightarrow> response outcome" where
  "postTxAddress this req =
     (case req_array req ''addresses'' of
        Inl e \<Rightarrow> ([], Inl e)
      | Inr address \<Rightarrow>
     (case enforce (truthy_obj address) ''Address is required.'' of
        Inl e \<Rightarrow> ([], Inl e)
      | Inr _ \<Rightarrow>
     (case enforce (\<not> spv this) ''Cannot get TX in SPV mode.'' of
        Inl e \<Rightarrow> ([], Inl e)
      | Inr _ \<Rightarrow>
     (case getMetaByAddress this (Many (map RawStr (arr_value address))) of
        (calls, Inl e) \<Rightarrow> (calls, Inl e)
      | (calls, Inr metas) \<Rightarrow>
     (case viewAll this metas [] of
        (calls', Inl e) \<Rightarrow> (calls @ calls', Inl e)
      | (calls', Inr result) \<Rightarrow> (calls @ calls', Inr (Json 200 (Metas result))))))))"

section \<open>Error propagation (fullnodeindexer.js, init)\<close>

text \<open>
  The objects are event emitters. Of an emitter only its listeners for \<open>'error'\<close>
  matter here: \<open>Forward\<close> is the closure \<open>err => this.emit('error', err)\<close> that
  \<open>init\<close> registers, \<open>Handler n\<close> any other listener, known by a number. What a
  handler does is outside the code: \<open>run n err\<close> is \<open>None\<close> when it returns and
  \<open>Some e\<close> when it throws \<open>e\<close>.
\<close>

datatype listener = Forward | Handler nat

datatype emitter = Facade | TxIndex | AddrIndex | MempoolIndex

record listeners =
  on_facade :: "nat list"
  on_txindex :: "listener list"
  on_addrindex :: "listener list"
  on_mempoolindex :: "listener list"

datatype event = Emitted emitter js_error | Called nat js_error

text \<open>\<open>on('error', listener)\<close> appends to the emitter's array.\<close>

definition init :: "fullnodeindexer \<Rightarrow> listeners \<Rightarrow> listeners" where
  "init this ls =
     (let ls1 = (if txindex this \<noteq> None
                 then ls\<lparr>on_txindex := on_txindex ls @ [Forward]\<rparr> else ls);
          ls2 = (if addrindex this \<noteq> None
                 then ls1\<lparr>on_addrindex := on_addrindex ls1 @ [Forward]\<rparr> else ls1)
      in ls2\<lparr>on_mempoolindex := on_mempoolindex ls2 @ [Forward]\<rparr>)"

text \<open>
  \<open>emit('error', err)\<close> of Node's EventEmitter: with no listener the error is thrown at
  the emitter; otherwise the listeners are called in the order they were registered, and
  a listener that throws ends the emission.
\<close>

fun callHandlers :: "(nat \<Rightarrow> js_error \<Rightarrow> js_error option) \<Rightarrow> nat list \<Rightarrow> js_error \<Rightarrow>
    event list \<times> js_error option" where
  "callHandlers run [] err = ([], None)"
| "callHandlers run (h # hs) err =
     (case run h err of
        Some e \<Rightarrow> ([Called h err], Some e)
      | None \<Rightarrow> (case callHandlers run hs err of (t, r) \<Rightarrow> (Called h err # t, r)))"

definition emitFacade :: "(nat \<Rightarrow> js_error \<Rightarrow> js_error option) \<Rightarrow> listeners \<Rightarrow> js_error \<Rightarrow>
    event list \<times> js_error option" where
  "emitFacade run ls err =
     (if on_facade ls = [] then ([Emitted Facade err], Some err)
      else (case callHandlers run (on_facade ls) err of (t, r) \<Rightarrow> (Emitted Facade err # t, r)))"

fun callListeners :: "(nat \<Rightarrow> js_error \<Rightarrow> js_error option) \<Rightarrow> listeners \<Rightarrow> listener list \<Rightarrow>
    js_error \<Rightarrow> event list \<times> js_error option" where
  "callListeners run ls [] err = ([], None)"
| "callListeners run ls (Forward # rest) err =
     (case emitFacade run ls err of
        (t, Some e) \<Rightarrow> (t, Some e)
      | (t, None) \<Rightarrow> (case callListeners run ls rest err of (t', r) \<Rightarrow> (t @ t', r)))"
| "callListeners run ls (Handler h # rest) err =
     (case run h err of
        Some e \<Rightarrow> ([Called h err], Some e)
      | None \<Rightarrow> (case callListeners run ls rest err of (t, r) \<Rightarrow> (Called h err # t, r)))"

definition listenersOf :: "listeners \<Rightarrow> emitter \<Rightarrow> listener list" where
  "listenersOf ls em =
     (case em of
        Facade \<Rightarrow> map Handler (on_facade ls)
      | TxIndex \<Rightarrow> on_txindex ls
      | AddrIndex \<Rightarrow> on_addrindex ls
      | MempoolIndex \<Rightarrow> on_mempoolindex ls)"

definition emitError :: "(nat \<Rightarrow> js_error \<Rightarrow> js_error option) \<Rightarrow> listeners \<Rightarrow> emitter \<Rightarrow>
    js_error \<Rightarrow> event list \<times> js_error option" where
  "emitError run ls em err =
     (if em = Facade then emitFacade run ls err
      else if listenersOf ls em = [] then ([Emitted em err], Some err)
      else (case callListeners run ls (listenersOf ls em) err of
              (t, r) \<Rightarrow> (Emitted em err # t, r)))"

section \<open>The order on hashes of the test (indexer-test.js)\<close>

text \<open>
  \<open>less(a, b)\<close> of the test compares the hashes of two transactions byte by byte from
  index 31 down to 0. A byte read past the end of a buffer is \<open>undefined\<close>, and every
  comparison with it is false.
\<close>

definition byteAt :: "hash \<Rightarrow> nat \<Rightarrow> 8 word option" where
  "byteAt h i = (if i < length h then Some (h ! i) else None)"

definition byteLess :: "8 word option \<Rightarrow> 8 word option \<Rightarrow> bool" where
  "byteLess x y = (case (x, y) of (Some a, Some b) \<Rightarrow> a < b | _ \<Rightarrow> False)"

text \<open>\<open>lessFrom n\<close> is the loop with \<open>i = n - 1\<close> still to do.\<close>

fun lessFrom :: "nat \<Rightarrow> hash \<Rightarrow> hash \<Rightarrow> bool" where
  "lessFrom 0 ha hb = False"
| "lessFrom (Suc i) ha hb =
     (if byteLess (byteAt ha i) (byteAt hb i) then True
      else if byteLess (byteAt hb i) (byteAt ha i) then False
      else lessFrom i ha hb)"

definition less_tx :: "tx \<Rightarrow> tx \<Rightarrow> bool" where
  "less_tx a b = lessFrom 32 (tx_hash a) (tx_hash b)"

section \<open>The indexer core and the two persisted indexes\<close>

text \<open>
  \<open>txindexer.js\<close>, \<open>addrindexer.js\<close> and the indexer base class they extend are
  required by the sources at hand but are not among them. This section models them from
  the specification (sections 3, 4.1, 4.2 and 6).
\<close>

text \<open>
  Modelled from the spec: the chain entry of section 3, the header data of a block (hash,
  height, previous hash), with the block time that a \<open>TXMeta\<close> records. The chain
  collaborator's type is missing from the sources.
\<close>

record entry =
  entry_hash :: hash
  entry_height :: nat
  entry_prev :: hash
  entry_time :: nat

text \<open>
  Modelled from the spec: a block is the ordered sequence of its transactions (section 3);
  the block type is missing from the sources.
\<close>

type_synonym block = "tx list"

text \<open>
  Modelled from the spec: the chain collaborator of section 6, missing from the sources.
  It reports the height of its tip and answers \<open>getEntry(height)\<close> and
  \<open>getBlock(height)\<close> for the canonical chain; \<open>cs_byHash\<close> is its store of every block
  it has seen, canonical or abandoned, from which the blocks to undo are fetched.
\<close>

record chain_source =
  cs_tipHeight :: nat
  cs_getEntry :: "nat \<Rightarrow> entry option"
  cs_getBlock :: "nat \<Rightarrow> block option"
  cs_byHash :: "hash \<rightharpoonup> entry \<times> block"

text \<open>
  Modelled from the spec: the states \<open>DETACHED\<close>, \<open>SYNCING\<close> and \<open>SYNCED\<close> of
  section 4.1 (the indexer base class is missing from the sources).
\<close>

datatype status = DETACHED | SYNCING | SYNCED

text \<open>
  Modelled from the spec: an index of the missing base class, with the persisted
  \<open>IndexState\<close> (height and hash of the last block applied, section 3), the content
  of the concrete index and the state of section 4.1.
\<close>

record 'c indexer =
  ix_height :: nat
  ix_hash :: hash
  ix_content :: 'c
  ix_status :: status

text \<open>
  Modelled from the spec: the two mutation hooks of the concrete index contract (section
  4.2), which the missing concrete indexes implement. Both indexes resolve the coins a
  block spends from their own records, so the view the chain lends to a connect is left
  out.
\<close>

record 'c hooks =
  indexBlock :: "'c \<Rightarrow> entry \<Rightarrow> block \<Rightarrow> 'c"
  unindexBlock :: "'c \<Rightarrow> entry \<Rightarrow> block \<Rightarrow> 'c"

text \<open>
  Modelled from the spec: one block's connect as one atomic batch of the missing core
  (section 4.1, step 4): the index's mutations and the new \<open>IndexState\<close> are committed
  together, and the state advances by one block.
\<close>

definition connectBlock :: "'c hooks \<Rightarrow> 'c indexer \<Rightarrow> entry \<Rightarrow> block \<Rightarrow> 'c indexer" where
  "connectBlock hk idx e b =
     idx\<lparr>ix_height := Suc (ix_height idx), ix_hash := entry_hash e,
         ix_content := indexBlock hk (ix_content idx) e b\<rparr>"

text \<open>
  Modelled from the spec: one block's disconnect as one atomic batch of the missing core
  (section 4.1, step 4); the state falls back to the block before.
\<close>

definition disconnectBlock :: "'c hooks \<Rightarrow> 'c indexer \<Rightarrow> entry \<Rightarrow> block \<Rightarrow> 'c indexer" where
  "disconnectBlock hk idx e b =
     idx\<lparr>ix_height := ix_height idx - 1, ix_hash := entry_prev e,
         ix_content := unindexBlock hk (ix_content idx) e b\<rparr>"

text \<open>
  Modelled from the spec: step 1 of the sync algorithm of the missing core, the comparison
  of the persisted state with the chain's entry at that height.
\<close>

definition onChain :: "chain_source \<Rightarrow> 'c indexer \<Rightarrow> bool" where
  "onChain ch idx =
     (case cs_getEntry ch (ix_height idx) of
        None \<Rightarrow> False
      | Some e \<Rightarrow> entry_hash e = ix_hash idx)"

text \<open>
  Modelled from the spec: a fault of the missing core (sections 4.1 and 7): a block the
  chain should have cannot be fetched.
\<close>

datatype fault = BlockNotFound

text \<open>
  Modelled from the spec: step 2 of the sync algorithm of the missing core. While the
  stored hash is not the chain's at the stored height, and the genesis floor is not
  reached, the block of the stored hash is undone, in descending height order.
\<close>

function rollback :: "'c hooks \<Rightarrow> chain_source \<Rightarrow> 'c indexer \<Rightarrow> fault + 'c indexer" where
  "rollback hk ch idx =
     (if ix_height idx = 0 \<or> onChain ch idx then Inr idx
      else (case cs_byHash ch (ix_hash idx) of
              None \<Rightarrow> Inl BlockNotFound
            | Some (e, b) \<Rightarrow> rollback hk ch (disconnectBlock hk idx e b)))"
  by pat_completeness auto
termination
  by (relation "measure (\<lambda>(hk, ch, idx). ix_height idx)") (auto simp: disconnectBlock_def)

declare rollback.simps [simp del]

text \<open>
  Modelled from the spec: step 3 of the sync algorithm of the missing core. From the
  fork point to the chain's tip, height by height, the canonical block is fetched and
  connected.
\<close>

function rollforward :: "'c hooks \<Rightarrow> chain_source \<Rightarrow> 'c indexer \<Rightarrow> fault + 'c indexer" where
  "rollforward hk ch idx =
     (if cs_tipHeight ch \<le> ix_height idx then Inr idx
      else (case (cs_getEntry ch (Suc (ix_height idx)), cs_getBlock ch (Suc (ix_height idx))) of
              (Some e, Some b) \<Rightarrow> rollforward hk ch (connectBlock hk idx e b)
            | _ \<Rightarrow> Inl BlockNotFound))"
  by pat_completeness auto
termination
  by (relation "measure (\<lambda>(hk, ch, idx). cs_tipHeight ch - ix_height idx)")
    (auto simp: connectBlock_def)

declare rollforward.simps [simp del]

text \<open>
  Modelled from the spec: the check of step 5 of the missing core's sync algorithm, that
  the persisted state is the chain's tip.
\<close>

definition atTip :: "chain_source \<Rightarrow> 'c indexer \<Rightarrow> bool" where
  "atTip ch idx = (ix_height idx = cs_tipHeight ch \<and> onChain ch idx)"

text \<open>
  Modelled from the spec: the sync algorithm of the missing core (section 4.1, steps 1 to
  5): passes of roll back and roll forward, repeated until the state is the chain's tip;
  then the index is marked \<open>SYNCED\<close>, which is when \<open>'chain tip'\<close> is emitted. A fault
  ends it. The result is \<open>None\<close> when the repetition never ends.
\<close>

partial_function (option) sync ::
    "'c hooks \<Rightarrow> chain_source \<Rightarrow> 'c indexer \<Rightarrow> (fault + 'c indexer) option" where
  "sync hk ch idx =
     (case rollback hk ch idx of
        Inl f \<Rightarrow> Some (Inl f)
      | Inr idx1 \<Rightarrow>
          (case rollforward hk ch idx1 of
             Inl f \<Rightarrow> Some (Inl f)
           | Inr idx2 \<Rightarrow>
               if atTip ch idx2 then Some (Inr (idx2\<lparr>ix_status := SYNCED\<rparr>))
               else sync hk ch idx2))"

text \<open>
  Modelled from the spec: the lifecycle surface of the missing core (section 6).
  \<open>disconnect()\<close> and \<open>close()\<close> detach the index and keep what is persisted.
\<close>

definition detach :: "'c indexer \<Rightarrow> 'c indexer" where
  "detach idx = idx\<lparr>ix_status := DETACHED\<rparr>"

text \<open>
  Modelled from the spec: \<open>connect()\<close> (and \<open>open()\<close>) of the missing core attach the
  index and run the sync algorithm against the chain as it is then.
\<close>

definition attach :: "'c hooks \<Rightarrow> chain_source \<Rightarrow> 'c indexer \<Rightarrow> (fault + 'c indexer) option" where
  "attach hk ch idx = sync hk ch (idx\<lparr>ix_status := SYNCING\<rparr>)"

text \<open>
  Modelled from the spec: a chain event reaching an index of the missing core (sections
  4.1 and 5): an attached index runs the sync algorithm against the chain as the event
  left it, a detached index is not subscribed and stays as it is.
\<close>

definition notify :: "'c hooks \<Rightarrow> chain_source \<Rightarrow> 'c indexer \<Rightarrow> (fault + 'c indexer) option" where
  "notify hk ch idx =
     (if ix_status idx = DETACHED then Some (Inr idx)
      else sync hk ch (idx\<lparr>ix_status := SYNCING\<rparr>))"

text \<open>
  Modelled from the spec: a run of chain events, each delivered and processed on its own,
  in order (section 5), by the missing core; the list holds the chain as each event left
  it.
\<close>

fun notifyAll :: "'c hooks \<Rightarrow> chain_source list \<Rightarrow> 'c indexer \<Rightarrow> (fault + 'c indexer) option" where
  "notifyAll hk [] idx = Some (Inr idx)"
| "notifyAll hk (ch # chs) idx =
     (case notify hk ch idx of
        Some (Inr idx') \<Rightarrow> notifyAll hk chs idx'
      | r \<Rightarrow> r)"

subsection \<open>The transaction index\<close>

text \<open>
  Modelled from the spec: the \<open>TXMeta\<close> the missing transaction index records for a
  transaction of a connected block: the transaction with its confirmation context
  (section 3).
\<close>

definition metaOf :: "entry \<Rightarrow> tx \<Rightarrow> txmeta" where
  "metaOf e t = \<lparr>meta_tx = t, meta_height = int (entry_height e),
     meta_block = Some (entry_hash e), meta_time = entry_time e\<rparr>"

text \<open>
  Modelled from the spec: \<open>indexBlock\<close> of the missing transaction index (section 4.2):
  the metadata of every transaction of the block, in block order, under its hash.
\<close>

definition TXIndexer_indexBlock :: "(hash \<rightharpoonup> txmeta) \<Rightarrow> entry \<Rightarrow> block \<Rightarrow> (hash \<rightharpoonup> txmeta)" where
  "TXIndexer_indexBlock m e b = foldl (\<lambda>m t. m(tx_hash t \<mapsto> metaOf e t)) m b"

text \<open>
  Modelled from the spec: \<open>unindexBlock\<close> of the missing transaction index (section
  4.2): what \<open>indexBlock\<close> added is removed, in reverse block order.
\<close>

definition TXIndexer_unindexBlock :: "(hash \<rightharpoonup> txmeta) \<Rightarrow> entry \<Rightarrow> block \<Rightarrow> (hash \<rightharpoonup> txmeta)" where
  "TXIndexer_unindexBlock m e b = foldl (\<lambda>m t. m(tx_hash t := None)) m (rev b)"

text \<open>Modelled from the spec: the hooks of the missing transaction index.\<close>

definition TXIndexer :: "(hash \<rightharpoonup> txmeta) hooks" where
  "TXIndexer = \<lparr>indexBlock = TXIndexer_indexBlock, unindexBlock = TXIndexer_unindexBlock\<rparr>"


subsection \<open>The address index\<close>

text \<open>
  Modelled from the spec: the content of the missing address index (section 3,
  \<open>AddressEntry\<close> and \<open>Coin\<close>): for every address the outpoints of its unspent coins
  and the hashes of its transactions, and the index's own coin records, kept while a coin
  is marked spent so that a disconnect can restore it.
\<close>

record addr_content =
  ac_coins :: "address \<Rightarrow> outpoint set"
  ac_records :: "outpoint \<rightharpoonup> coin"
  ac_hashes :: "address \<Rightarrow> hash set"

text \<open>
  Modelled from the spec: the coin derived from an output of a transaction and its
  confirmation height (section 3), as the missing address index records it.
\<close>

definition coinOf :: "entry \<Rightarrow> tx \<Rightarrow> nat \<Rightarrow> coin" where
  "coinOf e t i = \<lparr>coin_hash = tx_hash t, coin_index = i,
     coin_value = fst (tx_outputs t ! i), coin_address = snd (tx_outputs t ! i),
     coin_height = int (entry_height e), coin_coinbase = (tx_inputs t = [])\<rparr>"

text \<open>
  Modelled from the spec: a spend in the missing address index (section 4.2): the coin is
  looked up in the index's records, where the outputs of the same block already applied
  are found with the older ones; a coin the index tracks is marked spent, leaving the
  coins of its address.
\<close>

definition spendCoin :: "addr_content \<Rightarrow> outpoint \<Rightarrow> addr_content" where
  "spendCoin c op =
     (case ac_records c op of
        None \<Rightarrow> c
      | Some k \<Rightarrow> c\<lparr>ac_coins := (ac_coins c)(coin_address k := ac_coins c (coin_address k) - {op})\<rparr>)"

text \<open>
  Modelled from the spec: the undo of a spend in the missing address index (section 4.2):
  the coin entry is restored from the index's own record.
\<close>

definition unspendCoin :: "addr_content \<Rightarrow> outpoint \<Rightarrow> addr_content" where
  "unspendCoin c op =
     (case ac_records c op of
        None \<Rightarrow> c
      | Some k \<Rightarrow> c\<lparr>ac_coins := (ac_coins c)(coin_address k := insert op (ac_coins c (coin_address k)))\<rparr>)"

text \<open>
  Modelled from the spec: a new coin in the missing address index (section 4.2): output
  \<open>i\<close> of the transaction is recorded and joins the coins of its address.
\<close>

definition addCoin :: "entry \<Rightarrow> tx \<Rightarrow> addr_content \<Rightarrow> nat \<Rightarrow> addr_content" where
  "addCoin e t c i =
     (let k = coinOf e t i in
      c\<lparr>ac_records := (ac_records c)((tx_hash t, i) \<mapsto> k),
        ac_coins := (ac_coins c)(coin_address k := insert (tx_hash t, i) (ac_coins c (coin_address k)))\<rparr>)"

text \<open>
  Modelled from the spec: the undo of a new coin in the missing address index (section
  4.2): the record and the entry of output \<open>i\<close> are removed.
\<close>

definition removeCoin :: "entry \<Rightarrow> tx \<Rightarrow> addr_content \<Rightarrow> nat \<Rightarrow> addr_content" where
  "removeCoin e t c i =
     (let k = coinOf e t i in
      c\<lparr>ac_records := (ac_records c)((tx_hash t, i) := None),
        ac_coins := (ac_coins c)(coin_address k := ac_coins c (coin_address k) - {(tx_hash t, i)})\<rparr>)"

text \<open>
  Modelled from the spec: the addresses a transaction pertains to in the missing address
  index: those of its outputs and those of the tracked coins it spends.
\<close>

definition txAddresses :: "addr_content \<Rightarrow> tx \<Rightarrow> address list" where
  "txAddresses c t =
     map snd (tx_outputs t)
     @ concat (map (\<lambda>op. case ac_records c op of None \<Rightarrow> [] | Some k \<Rightarrow> [coin_address k])
         (tx_inputs t))"

text \<open>
  Modelled from the spec: the association of a transaction hash with an address in the
  missing address index (section 3, \<open>AddressEntry\<close>).
\<close>

definition addHash :: "hash \<Rightarrow> addr_content \<Rightarrow> address \<Rightarrow> addr_content" where
  "addHash h c a = c\<lparr>ac_hashes := (ac_hashes c)(a := insert h (ac_hashes c a))\<rparr>"

text \<open>
  Modelled from the spec: the removal of that association in the missing address index,
  exact, with no scan of the address (section 3).
\<close>

definition removeHash :: "hash \<Rightarrow> addr_content \<Rightarrow> address \<Rightarrow> addr_content" where
  "removeHash h c a = c\<lparr>ac_hashes := (ac_hashes c)(a := ac_hashes c a - {h})\<rparr>"

text \<open>
  Modelled from the spec: one transaction in \<open>indexBlock\<close> of the missing address index
  (section 4.2): its address associations, its spends, then its new coins.
\<close>

definition AddrIndexer_indexTX :: "entry \<Rightarrow> addr_content \<Rightarrow> tx \<Rightarrow> addr_content" where
  "AddrIndexer_indexTX e c t =
     (let c1 = foldl (addHash (tx_hash t)) c (txAddresses c t);
          c2 = foldl spendCoin c1 (tx_inputs t)
      in foldl (addCoin e t) c2 [0 ..< length (tx_outputs t)])"

text \<open>
  Modelled from the spec: one transaction in \<open>unindexBlock\<close> of the missing address
  index (section 4.2), the exact inverse: its coins are removed, the coins it spent are
  restored, its address associations are removed.
\<close>

definition AddrIndexer_unindexTX :: "entry \<Rightarrow> addr_content \<Rightarrow> tx \<Rightarrow> addr_content" where
  "AddrIndexer_unindexTX e c t =
     (let c1 = foldl (removeCoin e t) c (rev [0 ..< length (tx_outputs t)]);
          c2 = foldl unspendCoin c1 (rev (tx_inputs t))
      in foldl (removeHash (tx_hash t)) c2 (rev (txAddresses c2 t)))"

text \<open>
  Modelled from the spec: \<open>indexBlock\<close> of the missing address index (section 4.2):
  every transaction of the block, strictly in block order.
\<close>

definition AddrIndexer_indexBlock :: "addr_content \<Rightarrow> entry \<Rightarrow> block \<Rightarrow> addr_content" where
  "AddrIndexer_indexBlock c e b = foldl (AddrIndexer_indexTX e) c b"

text \<open>
  Modelled from the spec: \<open>unindexBlock\<close> of the missing address index (section 4.2):
  every transaction of the block, in reverse block order.
\<close>

definition AddrIndexer_unindexBlock :: "addr_content \<Rightarrow> entry \<Rightarrow> block \<Rightarrow> addr_content" where
  "AddrIndexer_unindexBlock c e b = foldl (AddrIndexer_unindexTX e) c (rev b)"

text \<open>Modelled from the spec: the hooks of the missing address index.\<close>

definition AddrIndexer :: "addr_content hooks" where
  "AddrIndexer = \<lparr>indexBlock = AddrIndexer_indexBlock, unindexBlock = AddrIndexer_unindexBlock\<rparr>"

text \<open>
  Modelled from the spec: the coins of one address in the missing address index: the
  records of its unspent outpoints.
\<close>

definition coinsOf :: "addr_content \<Rightarrow> address \<Rightarrow> coin set" where
  "coinsOf c a = (\<Union>op\<in>ac_coins c a. set_option (ac_records c op))"

text \<open>
  Modelled from the spec: \<open>getCoinsByAddress(addrs)\<close> of the missing address index
  (section 4.2), a read of the committed state: every address is looked up on its own
  and the results are put together.
\<close>

definition AddrIndexer_getCoinsByAddress :: "addr_content indexer \<Rightarrow> address list \<Rightarrow> coin set" where
  "AddrIndexer_getCoinsByAddress idx addrs = (\<Union>a\<in>set addrs. coinsOf (ix_content idx) a)"

text \<open>
  Modelled from the spec: \<open>getHashesByAddress(addrs)\<close> of the missing address index,
  the transaction hashes of the addresses.
\<close>

definition AddrIndexer_getHashesByAddress :: "addr_content indexer \<Rightarrow> address list \<Rightarrow> hash set" where
  "AddrIndexer_getHashesByAddress idx addrs = (\<Union>a\<in>set addrs. ac_hashes (ix_content idx) a)"

text \<open>Modelled from the spec: the empty content of the missing address index.\<close>

definition emptyAddr :: addr_content where
  "emptyAddr = \<lparr>ac_coins = (\<lambda>a. {}), ac_records = Map.empty, ac_hashes = (\<lambda>a. {})\<rparr>"

subsection \<open>Chains\<close>

text \<open>
  Modelled from the spec: the chain collaborator (section 6, missing from the sources)
  for the canonical chain \<open>cl\<close>, the entry and block of height \<open>i\<close> at position
  \<open>i\<close>, with the store \<open>st\<close> of the blocks it has seen.
\<close>

definition chainOf :: "(entry \<times> block) list \<Rightarrow> (hash \<rightharpoonup> entry \<times> block) \<Rightarrow> chain_source" where
  "chainOf cl st = \<lparr>
     cs_tipHeight = length cl - 1,
     cs_getEntry = (\<lambda>h. if h < length cl then Some (fst (cl ! h)) else None),
     cs_getBlock = (\<lambda>h. if h < length cl then Some (snd (cl ! h)) else None),
     cs_byHash = st\<rparr>"

text \<open>
  Modelled from the spec: the linear history the chain collaborator is assumed to give
  (sections 1 and 6): from height \<open>h\<close> on, every entry has the next height and names
  the hash of the entry before as its previous hash.
\<close>

fun linked :: "nat \<Rightarrow> hash \<Rightarrow> (entry \<times> block) list \<Rightarrow> bool" where
  "linked h p [] = True"
| "linked h p ((e, b) # cl) =
     (entry_height e = h \<and> entry_prev e = p \<and> linked (Suc h) (entry_hash e) cl)"

text \<open>
  Modelled from the spec: a canonical chain of the missing chain collaborator: a genesis
  entry at height 0 and a linear history above it.
\<close>

definition canonical :: "(entry \<times> block) list \<Rightarrow> bool" where
  "canonical cl =
     (case cl of [] \<Rightarrow> False | (g, gb) # rest \<Rightarrow> entry_height g = 0 \<and> linked 1 (entry_hash g) rest)"

text \<open>
  Modelled from the spec: the store of the missing chain collaborator knows the blocks of
  the chain \<open>cl\<close> by their hashes.
\<close>

definition stores :: "(hash \<rightharpoonup> entry \<times> block) \<Rightarrow> (entry \<times> block) list \<Rightarrow> bool" where
  "stores st cl = (\<forall>(e, b)\<in>set cl. st (entry_hash e) = Some (e, b))"

subsection \<open>Sequential indexing from genesis\<close>

text \<open>
  Modelled from the spec: the blocks of a run connected one after the other, in ascending
  order, by the missing core (section 4.1, step 3).
\<close>

fun connectAll :: "'c hooks \<Rightarrow> 'c indexer \<Rightarrow> (entry \<times> block) list \<Rightarrow> 'c indexer" where
  "connectAll hk idx [] = idx"
| "connectAll hk idx ((e, b) # cl) = connectAll hk (connectBlock hk idx e b) cl"

text \<open>
  Modelled from the spec, in its words (section 8, reorg correctness): direct sequential
  indexing of a canonical chain from genesis. The index starts at the genesis floor (height
  0, the hash of the genesis entry) with the content \<open>c0\<close> of an empty index, and every
  block above is connected in ascending order. This is the reference the sync algorithm
  of the missing core is compared with.
\<close>

definition fromGenesis :: "'c hooks \<Rightarrow> 'c \<Rightarrow> (entry \<times> block) list \<Rightarrow> 'c indexer" where
  "fromGenesis hk c0 cl =
     connectAll hk
       \<lparr>ix_height = 0, ix_hash = (case cl of [] \<Rightarrow> [] | (g, gb) # rest \<Rightarrow> entry_hash g),
        ix_content = c0, ix_status = SYNCED\<rparr>
       (tl cl)"

subsection \<open>What the indexes trust the chain for\<close>

text \<open>
  Modelled from the spec: the transactions of a run of blocks of the missing chain
  collaborator, in canonical order.
\<close>

definition txsOf :: "(entry \<times> block) list \<Rightarrow> tx list" where
  "txsOf cl = concat (map snd cl)"



subsection \<open>Notions used in the proofs\<close>

text \<open>The content of an index after a run of blocks is connected to the content \<open>c\<close>.\<close>

fun contentAfter :: "'c hooks \<Rightarrow> 'c \<Rightarrow> (entry \<times> block) list \<Rightarrow> 'c" where
  "contentAfter hk c [] = c"
| "contentAfter hk c ((e, b) # cl) = contentAfter hk (indexBlock hk c e b) cl"

text \<open>
  The blocks of a run can be undone: for each of them, at the content it is connected
  to, \<open>unindexBlock\<close> gives back what \<open>indexBlock\<close> was given.
\<close>

fun undoable :: "'c hooks \<Rightarrow> 'c \<Rightarrow> (entry \<times> block) list \<Rightarrow> bool" where
  "undoable hk c [] = True"
| "undoable hk c ((e, b) # cl) =
     (unindexBlock hk (indexBlock hk c e b) e b = c \<and> undoable hk (indexBlock hk c e b) cl)"

text \<open>
  What holds of the address index's content after the transactions with the hashes \<open>H\<close>,
  which spend the outpoints \<open>S\<close>, are indexed: records, coins and hashes are of these
  transactions, a recorded coin that none of them spends is among the coins of its
  address, and a record is the coin of its outpoint.
\<close>

definition addrInv :: "hash set \<Rightarrow> outpoint set \<Rightarrow> addr_content \<Rightarrow> bool" where
  "addrInv H S c \<longleftrightarrow>
     (\<forall>op k. ac_records c op = Some k \<longrightarrow> fst op \<in> H)
     \<and> (\<forall>a op. op \<in> ac_coins c a \<longrightarrow> fst op \<in> H)
     \<and> (\<forall>a. ac_hashes c a \<subseteq> H)
     \<and> (\<forall>op k. ac_records c op = Some k \<longrightarrow> op \<notin> S \<longrightarrow> op \<in> ac_coins c (coin_address k))
     \<and> (\<forall>op k. ac_records c op = Some k \<longrightarrow> (coin_hash k, coin_index k) = op)"



section \<open>Example objects\<close>

definition mk_hash :: "nat \<Rightarrow> hash" where
  "mk_hash n = word_of_nat n # replicate 31 0"

definition ex_tx1 :: tx where
  "ex_tx1 = \<lparr>tx_hash = mk_hash 1, tx_inputs = [], tx_outputs = [(50, ''alice'')]\<rparr>"

definition ex_tx2 :: tx where
  "ex_tx2 = \<lparr>tx_hash = mk_hash 2, tx_inputs = [(mk_hash 1, 0)], tx_outputs = [(20, ''bob'')]\<rparr>"

definition ex_meta1 :: txmeta where
  "ex_meta1 = \<lparr>meta_tx = ex_tx1, meta_height = 5, meta_block = Some (mk_hash 105), meta_time = 0\<rparr>"

definition ex_meta2 :: txmeta where
  "ex_meta2 = \<lparr>meta_tx = ex_tx2, meta_height = - 1, meta_block = None, meta_time = 0\<rparr>"

definition ex_coin1 :: coin where
  "ex_coin1 = \<lparr>coin_hash = mk_hash 1, coin_index = 0, coin_value = 50,
     coin_address = ''alice'', coin_height = 5, coin_coinbase = True\<rparr>"

text \<open>A mempool index holding the unconfirmed \<open>ex_tx2\<close> only.\<close>

definition ex_mempool :: mempool_indexer where
  "ex_mempool = \<lparr>
     mp_hasTX = (\<lambda>h. h = mk_hash 2),
     mp_getMeta = (\<lambda>h. if h = mk_hash 2 then Inr (Some ex_meta2) else Inr None),
     mp_getSpentView = (\<lambda>t. Inr Map.empty),
     mp_getMetaByAddress = (\<lambda>a. Inr [ex_meta2])\<rparr>"

text \<open>A transaction index holding the confirmed \<open>ex_tx1\<close> only.\<close>

definition ex_txindex :: tx_indexer where
  "ex_txindex = \<lparr>
     ti_hasTX = (\<lambda>h. Inr (h = mk_hash 1)),
     ti_getMeta = (\<lambda>h. if h = mk_hash 1 then Inr (Some ex_meta1) else Inr None),
     ti_getSpentView = (\<lambda>t. Inr [(mk_hash 1, 0) \<mapsto> ex_coin1])\<rparr>"

text \<open>
  An address index that knows the address \<open>alice\<close> only: its transaction is
  \<open>ex_tx1\<close>, its coin \<open>ex_coin1\<close>.
\<close>

definition ex_addrindex :: addr_indexer where
  "ex_addrindex = \<lparr>
     ai_getHashesByAddress =
       (\<lambda>as. if AddressObj ''alice'' \<in> set as then Inr [mk_hash 1] else Inr []),
     ai_getCoinsByAddress = (\<lambda>a. Inr [ex_coin1])\<rparr>"

text \<open>
  An address index that reports, for \<open>alice\<close>, also a hash the transaction index has no
  entry for.
\<close>

definition ex_addrindex_stale :: addr_indexer where
  "ex_addrindex_stale = \<lparr>
     ai_getHashesByAddress =
       (\<lambda>as. if AddressObj ''alice'' \<in> set as then Inr [mk_hash 1, mk_hash 9, mk_hash 1]
            else Inr []),
     ai_getCoinsByAddress = (\<lambda>a. Inr [ex_coin1])\<rparr>"

definition ex_chain :: chain_engine where
  "ex_chain = \<lparr>ch_height = 5, ch_getCoinView = (\<lambda>t. Inr Map.empty)\<rparr>"

definition ex_node :: "tx_indexer option \<Rightarrow> addr_indexer option \<Rightarrow> fullnodeindexer" where
  "ex_node ti ai = \<lparr>chain = ex_chain, mempoolindex = ex_mempool, spv = False,
     txindex = ti, addrindex = ai\<rparr>"

text \<open>The same node in SPV mode, with the address index.\<close>

definition ex_spv_node :: fullnodeindexer where
  "ex_spv_node = \<lparr>chain = ex_chain, mempoolindex = ex_mempool, spv = True,
     txindex = None, addrindex = Some ex_addrindex\<rparr>"

text \<open>A parser that accepts the two names used here and rejects every other string.\<close>

definition ex_fromString :: "string \<Rightarrow> js_error + address" where
  "ex_fromString s =
     (if s = ''alice'' \<or> s = ''bob'' then Inr s else Inl (Error ''Invalid address.'' None))"

text \<open>
  A request without parameters, one whose address does not parse, and one whose hash the
  validator rejects.
\<close>

definition ex_req_badhash :: request where
  "ex_req_badhash = \<lparr>req_str = (\<lambda>k. Inr None), req_array = (\<lambda>k. Inr None),
     req_brhash = (\<lambda>k. Inl (Error ''hash must be a hex string.'' None))\<rparr>"

definition ex_req_empty :: request where
  "ex_req_empty = \<lparr>req_str = (\<lambda>k. Inr None), req_array = (\<lambda>k. Inr None),
     req_brhash = (\<lambda>k. Inr None)\<rparr>"

definition ex_req_bad :: request where
  "ex_req_bad = \<lparr>
     req_str = (\<lambda>k. if k = ''address'' then Inr (Some ''zzz'') else Inr None),
     req_array = (\<lambda>k. if k = ''addresses'' then Inr (Some [''zzz'']) else Inr None),
     req_brhash = (\<lambda>k. if k = ''hash'' then Inr (Some (mk_hash 7)) else Inr None)\<rparr>"

text \<open>Listeners: two handlers on the facade, one older handler on the address index.\<close>

definition ex_listeners :: listeners where
  "ex_listeners = \<lparr>on_facade = [0, 1], on_txindex = [], on_addrindex = [Handler 2],
     on_mempoolindex = []\<rparr>"

definition ex_run :: "nat \<Rightarrow> js_error \<Rightarrow> js_error option" where
  "ex_run n err = None"

text \<open>
  Listeners with a handler registered on the mempool index before \<open>init\<close>, and a run in
  which that handler throws.
\<close>

definition ex_listeners_older :: listeners where
  "ex_listeners_older = \<lparr>on_facade = [0, 1], on_txindex = [], on_addrindex = [],
     on_mempoolindex = [Handler 3]\<rparr>"

definition ex_run_throwing :: "nat \<Rightarrow> js_error \<Rightarrow> js_error option" where
  "ex_run_throwing n err = (if n = 3 then Some (Error ''listener failed'' None) else None)"

subsection \<open>Example chains\<close>

text \<open>A coinbase paying one output, and the entry of a block.\<close>

definition ex_cb :: "nat \<Rightarrow> address \<Rightarrow> tx" where
  "ex_cb h a = \<lparr>tx_hash = mk_hash h, tx_inputs = [], tx_outputs = [(50, a)]\<rparr>"

definition ex_entry :: "nat \<Rightarrow> nat \<Rightarrow> nat \<Rightarrow> entry" where
  "ex_entry h height prev = \<lparr>entry_hash = mk_hash h, entry_height = height,
     entry_prev = mk_hash prev, entry_time = height\<rparr>"

text \<open>
  The chain of the test: blocks that pay the miner, indexed up to height 20; then the
  blocks 21 to 30 are abandoned for a branch that forks off at height 20 and reaches
  height 31. The store still has the abandoned blocks.
\<close>

definition ex_blk :: "nat \<Rightarrow> nat \<Rightarrow> nat \<Rightarrow> entry \<times> block" where
  "ex_blk h prev height = (ex_entry h height prev, [ex_cb h ''miner''])"

definition test_common :: "(entry \<times> block) list" where
  "test_common = ex_blk 0 0 0 # map (\<lambda>k. ex_blk k (k - 1) k) [1 ..< 21]"

definition test_abandoned :: "(entry \<times> block) list" where
  "test_abandoned = ex_blk 121 20 21 # map (\<lambda>k. ex_blk (k + 100) (k + 99) k) [22 ..< 31]"



text \<open>A chain of height 3, below the block of the next example.\<close>

definition ex_common :: "(entry \<times> block) list" where
  "ex_common = [(ex_entry 100 0 0, [ex_cb 10 ''satoshi'']),
                (ex_entry 101 1 100, [ex_cb 11 ''miner''])]"

definition ex_abandoned :: "(entry \<times> block) list" where
  "ex_abandoned = [(ex_entry 102 2 101, [ex_cb 12 ''miner'']),
                   (ex_entry 103 3 102, [ex_cb 13 ''miner''])]"

text \<open>
  A block with a coinbase, a transaction \<open>ex_A\<close> and, after it, a transaction \<open>ex_B\<close>
  that spends the output of \<open>ex_A\<close> and has the smaller hash.
\<close>

definition ex_A :: tx where
  "ex_A = \<lparr>tx_hash = mk_hash 9, tx_inputs = [(mk_hash 11, 0)], tx_outputs = [(50, ''alice'')]\<rparr>"

definition ex_B :: tx where
  "ex_B = \<lparr>tx_hash = mk_hash 5, tx_inputs = [(mk_hash 9, 0)], tx_outputs = [(50, ''bob'')]\<rparr>"

definition ex_idx :: "addr_content indexer" where
  "ex_idx = connectBlock AddrIndexer (fromGenesis AddrIndexer emptyAddr (ex_common @ ex_abandoned))
     (ex_entry 104 4 103) [ex_cb 14 ''miner'', ex_A, ex_B]"

section \<open>Properties of the aggregator\<close>

text \<open>
  Claim C4. \<open>getMeta(hash)\<close> returns the mempool index's metadata when the mempool
  index has an entry for the hash, and the transaction index is then not asked; otherwise,
  with a transaction index configured, it returns that index's result; otherwise it
  returns \<open>null\<close>.
\<close>

theorem getMeta_mempool_first:
  "(\<forall>meta. mp_getMeta (mempoolindex this) h = Inr (Some meta) \<longrightarrow>
      getMeta this h = ([MempoolGetMeta h], Inr (Some meta)))
   \<and> (\<forall>ti. mp_getMeta (mempoolindex this) h = Inr None \<longrightarrow> txindex this = Some ti \<longrightarrow>
      getMeta this h = ([MempoolGetMeta h, TxGetMeta h], ti_getMeta ti h))
   \<and> (mp_getMeta (mempoolindex this) h = Inr None \<longrightarrow> txindex this = None \<longrightarrow>
      getMeta this h = ([MempoolGetMeta h], Inr None))"
  by (simp add: getMeta_def)

theorem getMeta_mempool_first_witness:
  "getMeta (ex_node (Some ex_txindex) None) (mk_hash 2) = ([MempoolGetMeta (mk_hash 2)], Inr (Some ex_meta2))
   \<and> getMeta (ex_node (Some ex_txindex) None) (mk_hash 1) = ([MempoolGetMeta (mk_hash 1), TxGetMeta (mk_hash 1)], Inr (Some ex_meta1))
   \<and> getMeta (ex_node None None) (mk_hash 1) = ([MempoolGetMeta (mk_hash 1)], Inr None)"
  using getMeta_mempool_first [of "ex_node (Some ex_txindex) None" "mk_hash 2"]
    getMeta_mempool_first [of "ex_node (Some ex_txindex) None" "mk_hash 1"]
    getMeta_mempool_first [of "ex_node None None" "mk_hash 1"]
  by (simp add: ex_node_def ex_mempool_def ex_txindex_def mk_hash_def)

text \<open>
  Claim C5. \<open>getMetaView(meta)\<close> asks the mempool index for the spent view exactly
  when \<open>meta.height\<close> is the unconfirmed sentinel \<open>-1\<close>; otherwise it asks the
  transaction index when one is configured, and the chain engine's \<open>getCoinView\<close>
  when none is.
\<close>

theorem getMetaView_dispatch:
  "(meta_height meta = - 1 \<longrightarrow>
      getMetaView this meta =
        ([MempoolGetSpentView (meta_tx meta)],
         mp_getSpentView (mempoolindex this) (meta_tx meta)))
   \<and> (\<forall>ti. meta_height meta \<noteq> - 1 \<longrightarrow> txindex this = Some ti \<longrightarrow>
      getMetaView this meta =
        ([TxGetSpentView (meta_tx meta)], ti_getSpentView ti (meta_tx meta)))
   \<and> (meta_height meta \<noteq> - 1 \<longrightarrow> txindex this = None \<longrightarrow>
      getMetaView this meta =
        ([ChainGetCoinView (meta_tx meta)], ch_getCoinView (chain this) (meta_tx meta)))
   \<and> (MempoolGetSpentView (meta_tx meta) \<in> set (fst (getMetaView this meta))
        \<longleftrightarrow> meta_height meta = - 1)"
  by (simp add: getMetaView_def split: option.split)

theorem getMetaView_dispatch_witness:
  "meta_height ex_meta2 = - 1
   \<and> getMetaView (ex_node (Some ex_txindex) None) ex_meta2 =
        ([MempoolGetSpentView ex_tx2], Inr Map.empty)
   \<and> meta_height ex_meta1 \<noteq> - 1
   \<and> getMetaView (ex_node (Some ex_txindex) None) ex_meta1 =
        ([TxGetSpentView ex_tx1], Inr [(mk_hash 1, 0) \<mapsto> ex_coin1])
   \<and> getMetaView (ex_node None None) ex_meta1 = ([ChainGetCoinView ex_tx1], Inr Map.empty)"
  using getMetaView_dispatch [of ex_meta2 "ex_node (Some ex_txindex) None"]
    getMetaView_dispatch [of ex_meta1 "ex_node (Some ex_txindex) None"]
    getMetaView_dispatch [of ex_meta1 "ex_node None None"]
  by (simp add: ex_node_def ex_mempool_def ex_txindex_def ex_chain_def ex_meta1_def ex_meta2_def)

subsection \<open>The lookup loop of \<open>getMetaByAddress\<close>\<close>

lemma collectMeta_found:
  "map (ti_getMeta ti) hashes = map (\<lambda>m. Inr (Some m)) metas \<Longrightarrow>
   collectMeta ti hashes mtxs = (map TxGetMeta hashes, Inr (mtxs @ metas))"
proof (induction hashes arbitrary: mtxs metas)
  case Nil
  then show ?case by simp
next
  case (Cons h hashes)
  then obtain m ms where metas: "metas = m # ms" by (cases metas) auto
  with Cons.prems have "ti_getMeta ti h = Inr (Some m)"
    and "map (ti_getMeta ti) hashes = map (\<lambda>m. Inr (Some m)) ms" by simp_all
  with Cons.IH [of ms "mtxs @ [m]"] metas show ?case by simp
qed

lemma collectMeta_missing:
  "\<exists>h\<in>set hashes. ti_getMeta ti h = Inr None \<Longrightarrow>
   \<exists>calls e. collectMeta ti hashes mtxs = (calls, Inl e)"
proof (induction hashes arbitrary: mtxs)
  case Nil
  then show ?case by simp
next
  case (Cons h hashes)
  show ?case
  proof (cases "ti_getMeta ti h")
    case (Inl e)
    then show ?thesis by simp
  next
    case (Inr r)
    show ?thesis
    proof (cases r)
      case None
      with Inr show ?thesis by simp
    next
      case (Some m)
      with Inr Cons.prems have "\<exists>h\<in>set hashes. ti_getMeta ti h = Inr None" by auto
      from Cons.IH [OF this, of "mtxs @ [m]"] Inr Some show ?thesis by auto
    qed
  qed
qed

lemma collectMeta_assertion:
  "\<exists>h\<in>set hashes. ti_getMeta ti h = Inr None \<Longrightarrow>
   \<forall>h\<in>set hashes. \<forall>e. ti_getMeta ti h \<noteq> Inl e \<Longrightarrow>
   \<exists>calls. collectMeta ti hashes mtxs = (calls, Inl AssertionError)"
proof (induction hashes arbitrary: mtxs)
  case Nil
  then show ?case by simp
next
  case (Cons h hashes)
  show ?case
  proof (cases "ti_getMeta ti h")
    case (Inl e)
    with Cons.prems(2) show ?thesis by simp
  next
    case (Inr r)
    show ?thesis
    proof (cases r)
      case None
      with Inr show ?thesis by simp
    next
      case (Some m)
      with Inr Cons.prems have "\<exists>h\<in>set hashes. ti_getMeta ti h = Inr None"
        and "\<forall>h\<in>set hashes. \<forall>e. ti_getMeta ti h \<noteq> Inl e" by auto
      from Cons.IH [OF this, of "mtxs @ [m]"] Inr Some show ?thesis by auto
    qed
  qed
qed

lemma collectMeta_stops:
  "map (ti_getMeta ti) found = map (\<lambda>m. Inr (Some m)) metas \<Longrightarrow> ti_getMeta ti h = Inr None \<Longrightarrow>
   collectMeta ti (found @ h # rest) mtxs = (map TxGetMeta (found @ [h]), Inl AssertionError)"
proof (induction found arbitrary: mtxs metas)
  case Nil
  then show ?case by simp
next
  case (Cons x found)
  then obtain m ms where metas: "metas = m # ms" by (cases metas) auto
  with Cons.prems have "ti_getMeta ti x = Inr (Some m)"
    and "map (ti_getMeta ti) found = map (\<lambda>m. Inr (Some m)) ms" by simp_all
  with Cons.IH [of ms "mtxs @ [m]"] Cons.prems(2) show ?case by simp
qed

lemma getMetaByAddress_run:
  assumes "txindex this = Some ti" and "addrindex this = Some ai"
    and "mp_getMetaByAddress (mempoolindex this) addrs = Inr mempool"
    and "asked = (case addrs of Single a \<Rightarrow> [a] | Many as \<Rightarrow> as)"
    and "ai_getHashesByAddress ai asked = Inr hashes"
    and "collectMeta ti hashes [] = (calls, r)"
  shows "getMetaByAddress this addrs =
    ([MempoolGetMetaByAddress addrs, AddrGetHashesByAddress asked] @ calls,
     case r of Inl e \<Rightarrow> Inl e | Inr mtxs \<Rightarrow> Inr (mtxs @ mempool))"
  using assms by (cases r) (simp_all add: getMetaByAddress_def toArray_def)

text \<open>
  Claim C6. With both the transaction index and the address index configured,
  \<open>getMetaByAddress(addrs)\<close> asks the mempool index about \<open>addrs\<close>, asks the address
  index for the hashes of \<open>addrs\<close> (made an array when it is one address), looks every
  hash up in the transaction index, in order, and returns the metadata found followed by
  the mempool index's matches. When a reported hash has no entry in the transaction index
  it rejects and returns no partial result: with the assertion failure, right after the
  lookup of the first such hash, when the lookups before found their entries, and with
  the assertion failure as well whenever no lookup itself rejects.
\<close>

theorem getMetaByAddress_both:
  assumes "txindex this = Some ti" and "addrindex this = Some ai"
    and "mp_getMetaByAddress (mempoolindex this) addrs = Inr mempool"
    and "asked = (case addrs of Single a \<Rightarrow> [a] | Many as \<Rightarrow> as)"
    and "ai_getHashesByAddress ai asked = Inr hashes"
  shows "(\<forall>metas. map (ti_getMeta ti) hashes = map (\<lambda>m. Inr (Some m)) metas \<longrightarrow>
            getMetaByAddress this addrs =
              ([MempoolGetMetaByAddress addrs, AddrGetHashesByAddress asked]
                 @ map TxGetMeta hashes,
               Inr (metas @ mempool)))
    \<and> (\<forall>found h rest metas. hashes = found @ h # rest \<longrightarrow>
            map (ti_getMeta ti) found = map (\<lambda>m. Inr (Some m)) metas \<longrightarrow>
            ti_getMeta ti h = Inr None \<longrightarrow>
            getMetaByAddress this addrs =
              ([MempoolGetMetaByAddress addrs, AddrGetHashesByAddress asked]
                 @ map TxGetMeta (found @ [h]),
               Inl AssertionError))
    \<and> ((\<exists>h\<in>set hashes. ti_getMeta ti h = Inr None) \<longrightarrow>
            (\<exists>calls e. getMetaByAddress this addrs =
              ([MempoolGetMetaByAddress addrs, AddrGetHashesByAddress asked] @ calls, Inl e)))
    \<and> ((\<exists>h\<in>set hashes. ti_getMeta ti h = Inr None) \<longrightarrow>
         (\<forall>h\<in>set hashes. \<forall>e. ti_getMeta ti h \<noteq> Inl e) \<longrightarrow>
            (\<exists>calls. getMetaByAddress this addrs =
              ([MempoolGetMetaByAddress addrs, AddrGetHashesByAddress asked] @ calls,
               Inl AssertionError)))"
proof (intro conjI allI impI)
  fix metas
  assume "map (ti_getMeta ti) hashes = map (\<lambda>m. Inr (Some m)) metas"
  from getMetaByAddress_run [OF assms collectMeta_found [OF this, of "[]"]]
  show "getMetaByAddress this addrs =
      ([MempoolGetMetaByAddress addrs, AddrGetHashesByAddress asked] @ map TxGetMeta hashes,
       Inr (metas @ mempool))"
    by simp
next
  fix found h rest metas
  assume h: "hashes = found @ h # rest"
    and "map (ti_getMeta ti) found = map (\<lambda>m. Inr (Some m)) metas"
    and "ti_getMeta ti h = Inr None"
  from collectMeta_stops [OF this(2,3), of rest "[]"]
  have "collectMeta ti hashes [] = (map TxGetMeta (found @ [h]), Inl AssertionError)"
    by (simp add: h)
  from getMetaByAddress_run [OF assms this]
  show "getMetaByAddress this addrs =
      ([MempoolGetMetaByAddress addrs, AddrGetHashesByAddress asked]
         @ map TxGetMeta (found @ [h]),
       Inl AssertionError)"
    by simp
next
  assume "\<exists>h\<in>set hashes. ti_getMeta ti h = Inr None"
  from collectMeta_missing [OF this, of "[]"]
  obtain calls e where "collectMeta ti hashes [] = (calls, Inl e)" by blast
  from getMetaByAddress_run [OF assms this]
  show "\<exists>calls e. getMetaByAddress this addrs =
      ([MempoolGetMetaByAddress addrs, AddrGetHashesByAddress asked] @ calls, Inl e)"
    by auto
next
  assume "\<exists>h\<in>set hashes. ti_getMeta ti h = Inr None"
    and "\<forall>h\<in>set hashes. \<forall>e. ti_getMeta ti h \<noteq> Inl e"
  from collectMeta_assertion [OF this, of "[]"]
  obtain calls where "collectMeta ti hashes [] = (calls, Inl AssertionError)" by blast
  from getMetaByAddress_run [OF assms this]
  show "\<exists>calls. getMetaByAddress this addrs =
      ([MempoolGetMetaByAddress addrs, AddrGetHashesByAddress asked] @ calls,
       Inl AssertionError)"
    by auto
qed

theorem getMetaByAddress_both_witness:
  "getMetaByAddress (ex_node (Some ex_txindex) (Some ex_addrindex))
      (Single (AddressObj ''alice''))
    = ([MempoolGetMetaByAddress (Single (AddressObj ''alice'')),
        AddrGetHashesByAddress [AddressObj ''alice''], TxGetMeta (mk_hash 1)],
       Inr [ex_meta1, ex_meta2])
   \<and> getMetaByAddress (ex_node (Some ex_txindex) (Some ex_addrindex))
      (Many [AddressObj ''bob'', AddressObj ''alice''])
    = ([MempoolGetMetaByAddress (Many [AddressObj ''bob'', AddressObj ''alice'']),
        AddrGetHashesByAddress [AddressObj ''bob'', AddressObj ''alice''],
        TxGetMeta (mk_hash 1)],
       Inr [ex_meta1, ex_meta2])
   \<and> getMetaByAddress (ex_node (Some ex_txindex) (Some ex_addrindex))
      (Single (AddressObj ''bob''))
    = ([MempoolGetMetaByAddress (Single (AddressObj ''bob'')),
        AddrGetHashesByAddress [AddressObj ''bob'']],
       Inr [ex_meta2])
   \<and> getMetaByAddress (ex_node (Some ex_txindex) (Some ex_addrindex_stale))
      (Single (AddressObj ''alice''))
    = ([MempoolGetMetaByAddress (Single (AddressObj ''alice'')),
        AddrGetHashesByAddress [AddressObj ''alice''],
        TxGetMeta (mk_hash 1), TxGetMeta (mk_hash 9)],
       Inl AssertionError)"
proof -
  let ?good = "ex_node (Some ex_txindex) (Some ex_addrindex)"
  let ?stale = "ex_node (Some ex_txindex) (Some ex_addrindex_stale)"
  let ?a = "Single (AddressObj ''alice'')"
  let ?b = "Single (AddressObj ''bob'')"
  let ?m = "Many [AddressObj ''bob'', AddressObj ''alice'']"
  have t: "txindex ?good = Some ex_txindex" "txindex ?stale = Some ex_txindex"
    and ai: "addrindex ?good = Some ex_addrindex" "addrindex ?stale = Some ex_addrindex_stale"
    and mp: "mp_getMetaByAddress (mempoolindex ?good) ?a = Inr [ex_meta2]"
      "mp_getMetaByAddress (mempoolindex ?good) ?m = Inr [ex_meta2]"
      "mp_getMetaByAddress (mempoolindex ?good) ?b = Inr [ex_meta2]"
      "mp_getMetaByAddress (mempoolindex ?stale) ?a = Inr [ex_meta2]"
    by (simp_all add: ex_node_def ex_mempool_def)
  have arr: "[AddressObj ''alice''] = (case ?a of Single a \<Rightarrow> [a] | Many as \<Rightarrow> as)"
    "[AddressObj ''bob'', AddressObj ''alice''] = (case ?m of Single a \<Rightarrow> [a] | Many as \<Rightarrow> as)"
    "[AddressObj ''bob''] = (case ?b of Single a \<Rightarrow> [a] | Many as \<Rightarrow> as)"
    by simp_all
  have hs: "ai_getHashesByAddress ex_addrindex [AddressObj ''alice''] = Inr [mk_hash 1]"
    "ai_getHashesByAddress ex_addrindex [AddressObj ''bob'', AddressObj ''alice''] = Inr [mk_hash 1]"
    "ai_getHashesByAddress ex_addrindex [AddressObj ''bob''] = Inr []"
    "ai_getHashesByAddress ex_addrindex_stale [AddressObj ''alice'']
      = Inr ([mk_hash 1] @ mk_hash 9 # [mk_hash 1])"
    by (simp_all add: ex_addrindex_def ex_addrindex_stale_def)
  have found: "map (ti_getMeta ex_txindex) [mk_hash 1] = map (\<lambda>m. Inr (Some m)) [ex_meta1]"
    "map (ti_getMeta ex_txindex) [] = map (\<lambda>m. Inr (Some m)) []"
    by (simp_all add: ex_txindex_def)
  have missing: "ti_getMeta ex_txindex (mk_hash 9) = Inr None"
    by (simp add: ex_txindex_def mk_hash_def)
  from getMetaByAddress_both [OF t(1) ai(1) mp(1) arr(1) hs(1)] found(1)
  have "getMetaByAddress ?good ?a
    = ([MempoolGetMetaByAddress ?a, AddrGetHashesByAddress [AddressObj ''alice'']]
         @ map TxGetMeta [mk_hash 1], Inr ([ex_meta1] @ [ex_meta2]))"
    by blast
  moreover from getMetaByAddress_both [OF t(1) ai(1) mp(2) arr(2) hs(2)] found(1)
  have "getMetaByAddress ?good ?m
    = ([MempoolGetMetaByAddress ?m,
        AddrGetHashesByAddress [AddressObj ''bob'', AddressObj ''alice'']]
         @ map TxGetMeta [mk_hash 1], Inr ([ex_meta1] @ [ex_meta2]))"
    by blast
  moreover from getMetaByAddress_both [OF t(1) ai(1) mp(3) arr(3) hs(3)] found(2)
  have "getMetaByAddress ?good ?b
    = ([MempoolGetMetaByAddress ?b, AddrGetHashesByAddress [AddressObj ''bob'']]
         @ map TxGetMeta [], Inr ([] @ [ex_meta2]))"
    by blast
  moreover from getMetaByAddress_both [OF t(2) ai(2) mp(4) arr(1) hs(4)] found(1) missing
  have "getMetaByAddress ?stale ?a
    = ([MempoolGetMetaByAddress ?a, AddrGetHashesByAddress [AddressObj ''alice'']]
         @ map TxGetMeta ([mk_hash 1] @ [mk_hash 9]), Inl AssertionError)"
    by blast
  ultimately show ?thesis by simp
qed

text \<open>
  Claim C7. \<open>getCoinsByAddress(addrs)\<close> returns the address index's result when an address
  index is configured, and the empty list, with no error and no call, when none is.
\<close>

theorem getCoinsByAddress_delegates:
  "(\<forall>ai. addrindex this = Some ai \<longrightarrow>
      getCoinsByAddress this addrs = ([AddrGetCoinsByAddress addrs], ai_getCoinsByAddress ai addrs))
   \<and> (addrindex this = None \<longrightarrow> getCoinsByAddress this addrs = ([], Inr []))"
  by (simp add: getCoinsByAddress_def)

theorem getCoinsByAddress_delegates_witness:
  "getCoinsByAddress (ex_node None (Some ex_addrindex)) (Single (AddressObj ''alice'')) =
     ([AddrGetCoinsByAddress (Single (AddressObj ''alice''))], Inr [ex_coin1])
   \<and> getCoinsByAddress (ex_node (Some ex_txindex) None) (Single (AddressObj ''alice'')) =
     ([], Inr [])"
  using getCoinsByAddress_delegates [of "ex_node None (Some ex_addrindex)" "Single (AddressObj ''alice'')"]
    getCoinsByAddress_delegates [of "ex_node (Some ex_txindex) None" "Single (AddressObj ''alice'')"]
  by (simp add: ex_node_def ex_addrindex_def)

text \<open>
  Claim C10. When exactly one of the transaction index and the address index is configured,
  \<open>getMetaByAddress(addrs)\<close> returns the mempool index's matches alone, and the only call
  it makes is the one on the mempool index: the configured persisted index is never asked.
\<close>

theorem getMetaByAddress_one_index:
  "(txindex this = None) \<noteq> (addrindex this = None) \<Longrightarrow>
   getMetaByAddress this addrs =
     ([MempoolGetMetaByAddress addrs], mp_getMetaByAddress (mempoolindex this) addrs)"
  by (auto simp: getMetaByAddress_def split: sum.split option.split)

theorem getMetaByAddress_one_index_witness:
  "getMetaByAddress (ex_node (Some ex_txindex) None) (Single (AddressObj ''alice'')) =
     ([MempoolGetMetaByAddress (Single (AddressObj ''alice''))], Inr [ex_meta2])
   \<and> getMetaByAddress (ex_node None (Some ex_addrindex)) (Single (AddressObj ''alice'')) =
     ([MempoolGetMetaByAddress (Single (AddressObj ''alice''))], Inr [ex_meta2])"
  using getMetaByAddress_one_index [of "ex_node (Some ex_txindex) None" "Single (AddressObj ''alice'')"]
    getMetaByAddress_one_index [of "ex_node None (Some ex_addrindex)" "Single (AddressObj ''alice'')"]
  by (simp add: ex_node_def ex_mempool_def)

section \<open>Properties of the HTTP handlers\<close>

subsection \<open>The checks at the head of each handler\<close>

lemma getTxHash_unparsable:
  "req_brhash req ''hash'' = Inl e \<Longrightarrow> getTxHash this req = ([], Inl e)"
  by (simp add: getTxHash_def)

lemma getCoinAddress_head:
  "req_str req ''address'' = Inr a \<Longrightarrow> \<not> truthy_str a \<Longrightarrow>
   getCoinAddress this fromString req = ([], Inl (Error ''Address is required.'' (Some 400)))"
  "req_str req ''address'' = Inr a \<Longrightarrow> truthy_str a \<Longrightarrow> spv this \<Longrightarrow>
   getCoinAddress this fromString req = ([], Inl (Error ''Cannot get coins in SPV mode.'' (Some 400)))"
  "req_str req ''address'' = Inr (Some s) \<Longrightarrow> s \<noteq> [] \<Longrightarrow> \<not> spv this \<Longrightarrow> fromString s = Inl e \<Longrightarrow>
   getCoinAddress this fromString req = ([], Inl e)"
  "req_str req ''address'' = Inl e \<Longrightarrow> getCoinAddress this fromString req = ([], Inl e)"
  by (simp_all add: getCoinAddress_def enforce_def str_value_def truthy_str_def)

lemma getTxAddress_head:
  "req_str req ''address'' = Inr a \<Longrightarrow> \<not> truthy_str a \<Longrightarrow>
   getTxAddress this fromString req = ([], Inl (Error ''Address is required.'' (Some 400)))"
  "req_str req ''address'' = Inr a \<Longrightarrow> truthy_str a \<Longrightarrow> spv this \<Longrightarrow>
   getTxAddress this fromString req = ([], Inl (Error ''Cannot get TX in SPV mode.'' (Some 400)))"
  "req_str req ''address'' = Inr (Some s) \<Longrightarrow> s \<noteq> [] \<Longrightarrow> \<not> spv this \<Longrightarrow> fromString s = Inl e \<Longrightarrow>
   getTxAddress this fromString req = ([], Inl e)"
  "req_str req ''address'' = Inl e \<Longrightarrow> getTxAddress this fromString req = ([], Inl e)"
  by (simp_all add: getTxAddress_def enforce_def str_value_def truthy_str_def)

lemma postCoinAddress_head:
  "req_array req ''addresses'' = Inr a \<Longrightarrow> \<not> truthy_obj a \<Longrightarrow>
   postCoinAddress this req = ([], Inl (Error ''Address is required.'' (Some 400)))"
  "req_array req ''addresses'' = Inr a \<Longrightarrow> truthy_obj a \<Longrightarrow> spv this \<Longrightarrow>
   postCoinAddress this req = ([], Inl (Error ''Cannot get coins in SPV mode.'' (Some 400)))"
  "req_array req ''addresses'' = Inl e \<Longrightarrow> postCoinAddress this req = ([], Inl e)"
  by (simp_all add: postCoinAddress_def enforce_def)

lemma postTxAddress_head:
  "req_array req ''addresses'' = Inr a \<Longrightarrow> \<not> truthy_obj a \<Longrightarrow>
   postTxAddress this req = ([], Inl (Error ''Address is required.'' (Some 400)))"
  "req_array req ''addresses'' = Inr a \<Longrightarrow> truthy_obj a \<Longrightarrow> spv this \<Longrightarrow>
   postTxAddress this req = ([], Inl (Error ''Cannot get TX in SPV mode.'' (Some 400)))"
  "req_array req ''addresses'' = Inl e \<Longrightarrow> postTxAddress this req = ([], Inl e)"
  by (simp_all add: postTxAddress_def enforce_def)

lemma getTxHash_head:
  "req_brhash req ''hash'' = Inr h \<Longrightarrow> \<not> truthy_obj h \<Longrightarrow>
   getTxHash this req = ([], Inl (Error ''Hash is required.'' (Some 400)))"
  "req_brhash req ''hash'' = Inr h \<Longrightarrow> truthy_obj h \<Longrightarrow> spv this \<Longrightarrow>
   getTxHash this req = ([], Inl (Error ''Cannot get TX in SPV mode.'' (Some 400)))"
  by (simp_all add: getTxHash_def enforce_def)

text \<open>
  Claim C8, as the code has it. Every handler checks that its parameter is there and that
  the node is not in SPV mode before it calls the aggregator: when the parameter is
  missing (\<open>null\<close>, or the empty string for an address), or is there while the node is
  in SPV mode, the handler throws the error of \<open>enforce\<close>, with \<open>statusCode\<close> 400, and
  has called no read method. The two handlers of a single address also parse it first:
  when \<open>Address.fromString\<close> throws, the handler throws that very error, with the
  \<open>statusCode\<close> it came with, having called no read method. And when the validator
  throws for the address, the array or the hash, the handler throws that very error, no
  read method called.
\<close>

theorem handlers_reject_before_core:
  "(\<forall>a. req_str req ''address'' = Inr a \<longrightarrow> \<not> truthy_str a \<or> spv this \<longrightarrow>
      (\<exists>msg. getCoinAddress this fromString req = ([], Inl (Error msg (Some 400))))
      \<and> (\<exists>msg. getTxAddress this fromString req = ([], Inl (Error msg (Some 400)))))
   \<and> (\<forall>a. req_array req ''addresses'' = Inr a \<longrightarrow> \<not> truthy_obj a \<or> spv this \<longrightarrow>
      (\<exists>msg. postCoinAddress this req = ([], Inl (Error msg (Some 400))))
      \<and> (\<exists>msg. postTxAddress this req = ([], Inl (Error msg (Some 400)))))
   \<and> (\<forall>h. req_brhash req ''hash'' = Inr h \<longrightarrow> \<not> truthy_obj h \<or> spv this \<longrightarrow>
      (\<exists>msg. getTxHash this req = ([], Inl (Error msg (Some 400)))))
   \<and> (\<forall>a. req_str req ''address'' = Inr a \<longrightarrow> \<not> truthy_str a \<longrightarrow>
      getCoinAddress this fromString req = ([], Inl (Error ''Address is required.'' (Some 400)))
      \<and> getTxAddress this fromString req = ([], Inl (Error ''Address is required.'' (Some 400))))
   \<and> (\<forall>a. req_array req ''addresses'' = Inr a \<longrightarrow> \<not> truthy_obj a \<longrightarrow>
      postCoinAddress this req = ([], Inl (Error ''Address is required.'' (Some 400)))
      \<and> postTxAddress this req = ([], Inl (Error ''Address is required.'' (Some 400))))
   \<and> (\<forall>h. req_brhash req ''hash'' = Inr h \<longrightarrow> \<not> truthy_obj h \<longrightarrow>
      getTxHash this req = ([], Inl (Error ''Hash is required.'' (Some 400))))
   \<and> (\<forall>s e. req_str req ''address'' = Inr (Some s) \<longrightarrow> s \<noteq> [] \<longrightarrow> \<not> spv this \<longrightarrow>
        fromString s = Inl e \<longrightarrow>
      getCoinAddress this fromString req = ([], Inl e)
      \<and> getTxAddress this fromString req = ([], Inl e))
   \<and> (\<forall>e. req_str req ''address'' = Inl e \<longrightarrow>
      getCoinAddress this fromString req = ([], Inl e)
      \<and> getTxAddress this fromString req = ([], Inl e))
   \<and> (\<forall>e. req_array req ''addresses'' = Inl e \<longrightarrow>
      postCoinAddress this req = ([], Inl e) \<and> postTxAddress this req = ([], Inl e))
   \<and> (\<forall>e. req_brhash req ''hash'' = Inl e \<longrightarrow> getTxHash this req = ([], Inl e))"
proof (intro conjI allI impI)
  fix a assume r: "req_str req ''address'' = Inr a" and c: "\<not> truthy_str a \<or> spv this"
  show "\<exists>msg. getCoinAddress this fromString req = ([], Inl (Error msg (Some 400)))"
    using c getCoinAddress_head(1,2) [OF r, of this fromString]
    by (cases "truthy_str a") simp_all
  show "\<exists>msg. getTxAddress this fromString req = ([], Inl (Error msg (Some 400)))"
    using c getTxAddress_head(1,2) [OF r, of this fromString]
    by (cases "truthy_str a") simp_all
next
  fix a assume r: "req_array req ''addresses'' = Inr a" and c: "\<not> truthy_obj a \<or> spv this"
  show "\<exists>msg. postCoinAddress this req = ([], Inl (Error msg (Some 400)))"
    using c postCoinAddress_head(1,2) [OF r, of this]
    by (cases "truthy_obj a") simp_all
  show "\<exists>msg. postTxAddress this req = ([], Inl (Error msg (Some 400)))"
    using c postTxAddress_head(1,2) [OF r, of this]
    by (cases "truthy_obj a") simp_all
next
  fix h assume r: "req_brhash req ''hash'' = Inr h" and c: "\<not> truthy_obj h \<or> spv this"
  show "\<exists>msg. getTxHash this req = ([], Inl (Error msg (Some 400)))"
    using c getTxHash_head [OF r, of this]
    by (cases "truthy_obj h") simp_all
next
  fix a assume r: "req_str req ''address'' = Inr a" and c: "\<not> truthy_str a"
  show "getCoinAddress this fromString req = ([], Inl (Error ''Address is required.'' (Some 400)))"
    using r c by (rule getCoinAddress_head(1))
  show "getTxAddress this fromString req = ([], Inl (Error ''Address is required.'' (Some 400)))"
    using r c by (rule getTxAddress_head(1))
next
  fix a assume r: "req_array req ''addresses'' = Inr a" and c: "\<not> truthy_obj a"
  show "postCoinAddress this req = ([], Inl (Error ''Address is required.'' (Some 400)))"
    using r c by (rule postCoinAddress_head(1))
  show "postTxAddress this req = ([], Inl (Error ''Address is required.'' (Some 400)))"
    using r c by (rule postTxAddress_head(1))
next
  fix h assume r: "req_brhash req ''hash'' = Inr h" and c: "\<not> truthy_obj h"
  show "getTxHash this req = ([], Inl (Error ''Hash is required.'' (Some 400)))"
    using r c by (rule getTxHash_head(1))
next
  fix s e assume r: "req_str req ''address'' = Inr (Some s)" and s: "s \<noteq> []"
    and n: "\<not> spv this" and p: "fromString s = Inl e"
  show "getCoinAddress this fromString req = ([], Inl e)"
    using r s n p by (rule getCoinAddress_head(3))
  show "getTxAddress this fromString req = ([], Inl e)"
    using r s n p by (rule getTxAddress_head(3))
next
  fix e assume r: "req_str req ''address'' = Inl e"
  show "getCoinAddress this fromString req = ([], Inl e)"
    using r by (rule getCoinAddress_head(4))
  show "getTxAddress this fromString req = ([], Inl e)"
    using r by (rule getTxAddress_head(4))
next
  fix e assume r: "req_array req ''addresses'' = Inl e"
  show "postCoinAddress this req = ([], Inl e)"
    using r by (rule postCoinAddress_head(3))
  show "postTxAddress this req = ([], Inl e)"
    using r by (rule postTxAddress_head(3))
next
  fix e assume r: "req_brhash req ''hash'' = Inl e"
  show "getTxHash this req = ([], Inl e)"
    using r by (rule getTxHash_unparsable)
qed

theorem handlers_reject_before_core_witness:
  "getCoinAddress (ex_node None (Some ex_addrindex)) ex_fromString ex_req_empty
      = ([], Inl (Error ''Address is required.'' (Some 400)))
   \<and> getTxAddress (ex_node None (Some ex_addrindex)) ex_fromString ex_req_empty
      = ([], Inl (Error ''Address is required.'' (Some 400)))
   \<and> postCoinAddress (ex_node None (Some ex_addrindex)) ex_req_empty
      = ([], Inl (Error ''Address is required.'' (Some 400)))
   \<and> postTxAddress (ex_node None (Some ex_addrindex)) ex_req_empty
      = ([], Inl (Error ''Address is required.'' (Some 400)))
   \<and> getTxHash (ex_node None (Some ex_addrindex)) ex_req_empty
      = ([], Inl (Error ''Hash is required.'' (Some 400)))
   \<and> (\<exists>msg. postCoinAddress ex_spv_node ex_req_bad = ([], Inl (Error msg (Some 400))))
   \<and> (\<exists>msg. getTxHash ex_spv_node ex_req_bad = ([], Inl (Error msg (Some 400))))
   \<and> getCoinAddress (ex_node None (Some ex_addrindex)) ex_fromString ex_req_bad
      = ([], Inl (Error ''Invalid address.'' None))
   \<and> getTxAddress (ex_node None (Some ex_addrindex)) ex_fromString ex_req_bad
      = ([], Inl (Error ''Invalid address.'' None))
   \<and> getTxHash (ex_node None (Some ex_addrindex)) ex_req_badhash
      = ([], Inl (Error ''hash must be a hex string.'' None))"
proof -
  let ?n = "ex_node None (Some ex_addrindex)"
  have s: "req_str ex_req_empty ''address'' = Inr None" "\<not> truthy_str None"
    and a: "req_array ex_req_empty ''addresses'' = Inr None" "\<not> truthy_obj None"
    and h: "req_brhash ex_req_empty ''hash'' = Inr None"
    and b: "req_str ex_req_bad ''address'' = Inr (Some ''zzz'')" "''zzz'' \<noteq> []" "\<not> spv ?n"
      "ex_fromString ''zzz'' = Inl (Error ''Invalid address.'' None)"
    and v: "req_array ex_req_bad ''addresses'' = Inr (Some [''zzz''])"
      "req_brhash ex_req_bad ''hash'' = Inr (Some (mk_hash 7))"
      "spv ex_spv_node"
    and x: "req_brhash ex_req_badhash ''hash'' = Inl (Error ''hash must be a hex string.'' None)"
    by (simp_all add: ex_req_empty_def ex_req_bad_def ex_req_badhash_def truthy_str_def
        truthy_obj_def ex_fromString_def ex_spv_node_def ex_node_def)
  note t1 = handlers_reject_before_core [of ex_req_empty ?n ex_fromString]
  note t2 = handlers_reject_before_core [of ex_req_bad ex_spv_node ex_fromString]
  note t3 = handlers_reject_before_core [of ex_req_bad ?n ex_fromString]
  note t4 = handlers_reject_before_core [of ex_req_badhash ?n ex_fromString]
  from t1 s a h
  have "getCoinAddress ?n ex_fromString ex_req_empty
      = ([], Inl (Error ''Address is required.'' (Some 400)))"
    "getTxAddress ?n ex_fromString ex_req_empty
      = ([], Inl (Error ''Address is required.'' (Some 400)))"
    "postCoinAddress ?n ex_req_empty = ([], Inl (Error ''Address is required.'' (Some 400)))"
    "postTxAddress ?n ex_req_empty = ([], Inl (Error ''Address is required.'' (Some 400)))"
    "getTxHash ?n ex_req_empty = ([], Inl (Error ''Hash is required.'' (Some 400)))"
    by blast+
  moreover from t2 v
  have "\<exists>msg. postCoinAddress ex_spv_node ex_req_bad = ([], Inl (Error msg (Some 400)))"
    "\<exists>msg. getTxHash ex_spv_node ex_req_bad = ([], Inl (Error msg (Some 400)))"
    by blast+
  moreover from t3 b
  have "getCoinAddress ?n ex_fromString ex_req_bad = ([], Inl (Error ''Invalid address.'' None))"
    "getTxAddress ?n ex_fromString ex_req_bad = ([], Inl (Error ''Invalid address.'' None))"
    by blast+
  moreover from t4 x
  have "getTxHash ?n ex_req_badhash = ([], Inl (Error ''hash must be a hex string.'' None))"
    by blast
  ultimately show ?thesis by blast
qed

text \<open>
  Claim C8 as stated fails. The two bulk handlers never parse the elements of
  \<open>addresses\<close>, so a string that is no address reaches \<open>getCoinsByAddress\<close> and
  \<open>getMetaByAddress\<close>. And the error of an address that does not parse, or of a hash
  the validator rejects, never passes through \<open>enforce\<close>: the handler throws it as it
  came, so with no \<open>statusCode\<close> when it came with none.
\<close>

theorem handlers_validate_counterexample:
  "ex_fromString ''zzz'' = Inl (Error ''Invalid address.'' None)
   \<and> req_array ex_req_bad ''addresses'' = Inr (Some [''zzz''])
   \<and> postCoinAddress (ex_node None (Some ex_addrindex)) ex_req_bad =
        ([AddrGetCoinsByAddress (Many [RawStr ''zzz''])], Inr (Json 200 (Coins [ex_coin1])))
   \<and> fst (postTxAddress (ex_node None (Some ex_addrindex)) ex_req_bad) =
        [MempoolGetMetaByAddress (Many [RawStr ''zzz'']), MempoolGetSpentView ex_tx2]
   \<and> getCoinAddress (ex_node None (Some ex_addrindex)) ex_fromString ex_req_bad =
        ([], Inl (Error ''Invalid address.'' None))
   \<and> req_brhash ex_req_badhash ''hash'' = Inl (Error ''hash must be a hex string.'' None)
   \<and> getTxHash (ex_node None (Some ex_addrindex)) ex_req_badhash =
        ([], Inl (Error ''hash must be a hex string.'' None))"
  by (simp add: postCoinAddress_def postTxAddress_def getCoinAddress_def getTxHash_def
      enforce_def truthy_obj_def truthy_str_def str_value_def arr_value_def ex_req_bad_def
      ex_req_badhash_def ex_node_def ex_fromString_def getCoinsByAddress_def
      getMetaByAddress_def getMetaView_def ex_addrindex_def ex_mempool_def ex_meta2_def)

section \<open>Properties of \<open>init\<close>\<close>

lemma callListeners_forward:
  "\<forall>h. Handler h \<in> set pre \<longrightarrow> run h err = None \<Longrightarrow>
   Emitted Facade err \<in> set (fst (callListeners run ls (pre @ Forward # post) err))"
proof (induction pre)
  case Nil
  show ?case by (auto simp: emitFacade_def split: prod.split option.split)
next
  case (Cons l pre)
  then show ?case
    by (cases l) (auto simp: emitFacade_def split: prod.split option.split)
qed

lemma callListeners_unhandled:
  "on_facade ls = [] \<Longrightarrow> \<forall>h. Handler h \<in> set pre \<longrightarrow> run h err = None \<Longrightarrow>
   snd (callListeners run ls (pre @ Forward # post) err) = Some err"
proof (induction pre)
  case Nil
  then show ?case by (simp add: emitFacade_def)
next
  case (Cons l pre)
  then show ?case
    by (cases l) (auto simp: emitFacade_def split: prod.split option.split)
qed

lemma init_listeners:
  "em = MempoolIndex \<or> em = TxIndex \<and> txindex this \<noteq> None
     \<or> em = AddrIndex \<and> addrindex this \<noteq> None \<Longrightarrow>
   listenersOf (init this ls) em = listenersOf ls em @ [Forward]"
  by (auto simp: init_def listenersOf_def Let_def)

lemma init_facade: "on_facade (init this ls) = on_facade ls"
  by (simp add: init_def Let_def)

text \<open>
  Claim C9, as the code has it. After \<open>init()\<close>, an \<open>'error'\<close> event emitted by the
  mempool index, or by the transaction or address index when configured, is emitted again
  on the facade with the same error, provided no listener registered on that sub-index
  before \<open>init\<close> throws when it is called with the error; and with no listener on the
  facade the error is thrown back at the emitter, so it is not lost.
\<close>

theorem init_forwards_errors:
  assumes "em = MempoolIndex \<or> em = TxIndex \<and> txindex this \<noteq> None
     \<or> em = AddrIndex \<and> addrindex this \<noteq> None"
    and "\<forall>h. Handler h \<in> set (listenersOf ls em) \<longrightarrow> run h err = None"
  shows "Emitted Facade err \<in> set (fst (emitError run (init this ls) em err))
    \<and> (on_facade ls = [] \<longrightarrow> snd (emitError run (init this ls) em err) = Some err)"
proof -
  from assms(1) have nf: "em \<noteq> Facade" by auto
  have l: "listenersOf (init this ls) em = listenersOf ls em @ [Forward]"
    using assms(1) by (rule init_listeners)
  have "Emitted Facade err \<in> set (fst (callListeners run (init this ls) (listenersOf ls em @ Forward # []) err))"
    using assms(2) by (rule callListeners_forward)
  moreover have "on_facade ls = [] \<longrightarrow>
      snd (callListeners run (init this ls) (listenersOf ls em @ Forward # []) err) = Some err"
    using callListeners_unhandled [of "init this ls" "listenersOf ls em" run err "[]"] assms(2)
    by (simp add: init_facade)
  ultimately show ?thesis
    using nf l by (auto simp: emitError_def split: prod.split)
qed

theorem init_forwards_errors_witness:
  "Emitted Facade AssertionError \<in>
      set (fst (emitError ex_run (init (ex_node (Some ex_txindex) (Some ex_addrindex)) ex_listeners)
        AddrIndex AssertionError))
   \<and> Emitted Facade AssertionError \<in>
      set (fst (emitError ex_run (init (ex_node None None) ex_listeners)
        MempoolIndex AssertionError))"
proof -
  have "\<forall>h. Handler h \<in> set (listenersOf ex_listeners AddrIndex) \<longrightarrow> ex_run h AssertionError = None"
    "\<forall>h. Handler h \<in> set (listenersOf ex_listeners MempoolIndex) \<longrightarrow> ex_run h AssertionError = None"
    by (simp_all add: ex_run_def)
  moreover have "addrindex (ex_node (Some ex_txindex) (Some ex_addrindex)) \<noteq> None"
    by (simp add: ex_node_def)
  ultimately show ?thesis
    using init_forwards_errors [of AddrIndex "ex_node (Some ex_txindex) (Some ex_addrindex)"
        ex_listeners ex_run AssertionError]
      init_forwards_errors [of MempoolIndex "ex_node None None" ex_listeners ex_run AssertionError]
    by simp
qed

text \<open>
  Claim C9 as stated fails: the listener of \<open>init\<close> is appended to those already
  there, and a listener that throws ends the emission. With a handler registered on the
  mempool index before \<open>init\<close> that throws, the error the mempool index emits is not
  emitted on the facade; the handler's exception is thrown at the emitter instead.
\<close>

theorem init_forwards_errors_counterexample:
  "emitError ex_run_throwing (init (ex_node None None) ex_listeners_older) MempoolIndex
      AssertionError
    = ([Emitted MempoolIndex AssertionError, Called 3 AssertionError],
       Some (Error ''listener failed'' None))
   \<and> Emitted Facade AssertionError \<notin> set (fst (emitError ex_run_throwing
        (init (ex_node None None) ex_listeners_older) MempoolIndex AssertionError))"
  by (simp add: emitError_def listenersOf_def init_def Let_def ex_node_def
      ex_listeners_older_def ex_run_throwing_def)

section \<open>Properties of the indexer core\<close>

subsection \<open>Connecting a run of blocks\<close>

lemma connectAll_append:
  "connectAll hk idx (xs @ ys) = connectAll hk (connectAll hk idx xs) ys"
  by (induction xs arbitrary: idx) auto

lemma connectAll_height: "ix_height (connectAll hk idx xs) = ix_height idx + length xs"
  by (induction xs arbitrary: idx) (auto simp: connectBlock_def)

lemma connectAll_status: "ix_status (connectAll hk idx xs) = ix_status idx"
  by (induction xs arbitrary: idx) (auto simp: connectBlock_def)

lemma connectAll_hash:
  "ix_hash (connectAll hk idx xs) = (if xs = [] then ix_hash idx else entry_hash (fst (last xs)))"
  by (induction xs arbitrary: idx) (auto simp: connectBlock_def)

lemma connectBlock_set_status:
  "connectBlock hk (idx\<lparr>ix_status := s\<rparr>) e b = (connectBlock hk idx e b)\<lparr>ix_status := s\<rparr>"
  by (simp add: connectBlock_def)

lemma connectAll_set_status:
  "connectAll hk (idx\<lparr>ix_status := s\<rparr>) xs = (connectAll hk idx xs)\<lparr>ix_status := s\<rparr>"
  by (induction xs arbitrary: idx) (auto simp: connectBlock_set_status)

subsection \<open>Rolling forward\<close>

lemma rollforward_connects:
  "pre \<noteq> [] \<Longrightarrow> ix_height idx = length pre - 1 \<Longrightarrow>
   rollforward hk (chainOf (pre @ post) st) idx = Inr (connectAll hk idx post)"
proof (induction post arbitrary: pre idx)
  case Nil
  then show ?case
    by (subst rollforward.simps) (simp add: chainOf_def)
next
  case (Cons x post)
  obtain e b where x: "x = (e, b)" by (cases x)
  let ?ch = "chainOf (pre @ x # post) st"
  let ?idx = "connectBlock hk idx e b"
  have next_height: "Suc (ix_height idx) = length pre"
    using Cons.prems by (cases pre) auto
  have h: "ix_height ?idx = length (pre @ [x]) - 1"
    using next_height by (simp add: connectBlock_def)
  have "rollforward hk (chainOf ((pre @ [x]) @ post) st) ?idx = Inr (connectAll hk ?idx post)"
    by (rule Cons.IH [OF _ h]) simp
  then have step: "rollforward hk ?ch ?idx = Inr (connectAll hk idx (x # post))"
    by (simp add: x)
  have below: "\<not> cs_tipHeight ?ch \<le> ix_height idx"
    using next_height by (simp add: chainOf_def)
  have fetch: "cs_getEntry ?ch (Suc (ix_height idx)) = Some e"
    "cs_getBlock ?ch (Suc (ix_height idx)) = Some b"
    using next_height by (simp_all add: chainOf_def x)
  show ?case
    by (subst rollforward.simps) (simp add: below fetch step)
qed

subsection \<open>Rolling back\<close>

lemma connectAll_content:
  "ix_content (connectAll hk idx xs) = contentAfter hk (ix_content idx) xs"
  by (induction xs arbitrary: idx) (auto simp: connectBlock_def)

lemma undoable_append:
  "undoable hk c (xs @ ys) \<longleftrightarrow> undoable hk c xs \<and> undoable hk (contentAfter hk c xs) ys"
  by (induction xs arbitrary: c) auto

lemma linked_append:
  "linked h p (xs @ ys) \<longleftrightarrow>
   linked h p xs \<and> linked (h + length xs) (if xs = [] then p else entry_hash (fst (last xs))) ys"
  by (induction xs arbitrary: h p) auto

lemma disconnect_connect:
  "unindexBlock hk (indexBlock hk (ix_content idx) e b) e b = ix_content idx \<Longrightarrow>
   entry_prev e = ix_hash idx \<Longrightarrow>
   disconnectBlock hk (connectBlock hk idx e b) e b = idx"
  by (simp add: disconnectBlock_def connectBlock_def)

lemma rollback_undoes:
  assumes "ix_height idx0 = 0 \<or> onChain ch idx0"
    and "cs_byHash ch = st"
  shows "stores st ab \<Longrightarrow> undoable hk (ix_content idx0) ab \<Longrightarrow>
    linked (Suc (ix_height idx0)) (ix_hash idx0) ab \<Longrightarrow>
    \<forall>k < length ab. \<not> onChain ch (connectAll hk idx0 (take (Suc k) ab)) \<Longrightarrow>
    rollback hk ch (connectAll hk idx0 ab) = Inr idx0"
proof (induction ab rule: rev_induct)
  case Nil
  with assms show ?case by (subst rollback.simps) simp
next
  case (snoc x ab)
  obtain e b where x: "x = (e, b)" by (cases x)
  let ?mid = "connectAll hk idx0 ab"
  let ?top = "connectAll hk idx0 (ab @ [x])"
  have top: "?top = connectBlock hk ?mid e b" by (simp add: connectAll_append x)
  have off: "\<not> onChain ch ?top"
    using snoc.prems(4) [rule_format, of "length ab"] by simp
  have pos: "ix_height ?top \<noteq> 0" by (simp add: connectAll_height)
  have st: "st (ix_hash ?top) = Some (e, b)"
    using snoc.prems(1) by (simp add: stores_def connectAll_hash x)
  have "undoable hk (ix_content idx0) ab"
    and u: "undoable hk (ix_content ?mid) [x]"
    using snoc.prems(2) by (simp_all add: undoable_append connectAll_content)
  have "linked (Suc (ix_height idx0)) (ix_hash idx0) ab"
    and l: "entry_prev e = ix_hash ?mid"
    using snoc.prems(3) by (auto simp: linked_append x connectAll_hash)
  have undone: "disconnectBlock hk ?top e b = ?mid"
    unfolding top using u l by (intro disconnect_connect) (simp_all add: x)
  have "rollback hk ch ?mid = Inr idx0"
  proof (rule snoc.IH)
    show "stores st ab" using snoc.prems(1) by (simp add: stores_def)
    show "undoable hk (ix_content idx0) ab" by fact
    show "linked (Suc (ix_height idx0)) (ix_hash idx0) ab" by fact
    show "\<forall>k<length ab. \<not> onChain ch (connectAll hk idx0 (take (Suc k) ab))"
    proof (intro allI impI)
      fix k assume "k < length ab"
      with snoc.prems(4) [rule_format, of k]
      show "\<not> onChain ch (connectAll hk idx0 (take (Suc k) ab))" by simp
    qed
  qed
  then show ?case
    using off pos st undone assms(2) by (subst rollback.simps) simp
qed

subsection \<open>The sync algorithm against a reorganized chain\<close>

lemma fromGenesis_append:
  "common \<noteq> [] \<Longrightarrow>
   fromGenesis hk c0 (common @ xs) = connectAll hk (fromGenesis hk c0 common) xs"
  by (cases common) (auto simp: fromGenesis_def connectAll_append)

lemma fromGenesis_height: "cl \<noteq> [] \<Longrightarrow> ix_height (fromGenesis hk c0 cl) = length cl - 1"
  by (cases cl) (auto simp: fromGenesis_def connectAll_height)

lemma fromGenesis_hash:
  "cl \<noteq> [] \<Longrightarrow> ix_hash (fromGenesis hk c0 cl) = entry_hash (fst (last cl))"
  by (cases cl) (auto simp: fromGenesis_def connectAll_hash)

lemma fromGenesis_status: "ix_status (fromGenesis hk c0 cl) = SYNCED"
  by (simp add: fromGenesis_def connectAll_status)

lemma fromGenesis_content:
  "ix_content (fromGenesis hk c0 cl) = contentAfter hk c0 (tl cl)"
  by (simp add: fromGenesis_def connectAll_content)

lemma fromGenesis_onChain:
  "cl \<noteq> [] \<Longrightarrow> onChain (chainOf (cl @ xs) st) ((fromGenesis hk c0 cl)\<lparr>ix_status := s\<rparr>)"
  by (cases cl rule: rev_cases)
    (simp_all add: onChain_def chainOf_def fromGenesis_height fromGenesis_hash nth_append)

lemma canonical_linked:
  "common \<noteq> [] \<Longrightarrow> canonical (common @ xs) \<Longrightarrow>
   linked (length common) (entry_hash (fst (last common))) xs"
  by (cases common) (auto simp: canonical_def linked_append split: if_splits)

lemma sync_converges:
  assumes common: "common \<noteq> []"
    and old: "canonical (common @ abandoned)"
    and st: "stores st abandoned"
    and undo: "undoable hk (contentAfter hk c0 (tl common)) abandoned"
    and apart: "\<forall>x\<in>set abandoned. \<forall>y\<in>set fresh. entry_hash (fst x) \<noteq> entry_hash (fst y)"
  shows "sync hk (chainOf (common @ fresh) st) ((fromGenesis hk c0 (common @ abandoned))\<lparr>ix_status := s\<rparr>)
    = Some (Inr (fromGenesis hk c0 (common @ fresh)))"
proof -
  let ?ch = "chainOf (common @ fresh) st"
  let ?idx0 = "(fromGenesis hk c0 common)\<lparr>ix_status := s\<rparr>"
  have h0: "ix_height ?idx0 = length common - 1"
    and hash0: "ix_hash ?idx0 = entry_hash (fst (last common))"
    using common by (simp_all add: fromGenesis_height fromGenesis_hash)
  have start: "(fromGenesis hk c0 (common @ abandoned))\<lparr>ix_status := s\<rparr>
      = connectAll hk ?idx0 abandoned"
    using common by (simp add: fromGenesis_append connectAll_set_status)
  have off: "\<forall>k<length abandoned. \<not> onChain ?ch (connectAll hk ?idx0 (take (Suc k) abandoned))"
  proof (intro allI impI)
    fix k assume k: "k < length abandoned"
    then have t: "take (Suc k) abandoned \<noteq> []" by (cases abandoned) auto
    have l: "last (take (Suc k) abandoned) = abandoned ! k"
      using k by (simp add: take_Suc_conv_app_nth)
    have "min (length abandoned) (Suc k) = Suc k" using k by simp
    moreover have "length common - 1 + Suc k = length common + k"
      using common by (cases common) simp_all
    ultimately have hk: "ix_height (connectAll hk ?idx0 (take (Suc k) abandoned)) = length common + k"
      using h0 by (simp add: connectAll_height)
    have hashk: "ix_hash (connectAll hk ?idx0 (take (Suc k) abandoned))
        = entry_hash (fst (abandoned ! k))"
      using k by (auto simp: connectAll_hash l)
    show "\<not> onChain ?ch (connectAll hk ?idx0 (take (Suc k) abandoned))"
    proof (cases "k < length fresh")
      case True
      have "entry_hash (fst (fresh ! k)) \<noteq> entry_hash (fst (abandoned ! k))"
        using apart [rule_format, OF nth_mem [OF k] nth_mem [OF True]] by simp
      moreover have "cs_getEntry ?ch (length common + k) = Some (fst (fresh ! k))"
        using True by (simp add: chainOf_def nth_append)
      ultimately show ?thesis
        by (simp add: onChain_def hk hashk)
    next
      case False
      then have "cs_getEntry ?ch (length common + k) = None"
        by (simp add: chainOf_def)
      then show ?thesis
        by (simp add: onChain_def hk)
    qed
  qed
  have "rollback hk ?ch (connectAll hk ?idx0 abandoned) = Inr ?idx0"
  proof (rule rollback_undoes [where st = st])
    show "ix_height ?idx0 = 0 \<or> onChain ?ch ?idx0"
      by (rule disjI2) (rule fromGenesis_onChain [OF common])
    show "cs_byHash ?ch = st" by (simp add: chainOf_def)
    show "stores st abandoned" by fact
    show "undoable hk (ix_content ?idx0) abandoned"
      using undo by (simp add: fromGenesis_content)
    show "linked (Suc (ix_height ?idx0)) (ix_hash ?idx0) abandoned"
    proof -
      have "Suc (length common - 1) = length common"
        using common by (cases common) simp_all
      then show ?thesis
        using canonical_linked [OF common old] common
        by (simp add: fromGenesis_height fromGenesis_hash)
    qed
    show "\<forall>k<length abandoned. \<not> onChain ?ch (connectAll hk ?idx0 (take (Suc k) abandoned))"
      by fact
  qed
  moreover have "rollforward hk ?ch ?idx0 = Inr (connectAll hk ?idx0 fresh)"
    using common h0 by (intro rollforward_connects)
  moreover have fin: "connectAll hk ?idx0 fresh = (fromGenesis hk c0 (common @ fresh))\<lparr>ix_status := s\<rparr>"
    using common by (simp add: fromGenesis_append connectAll_set_status)
  moreover have "atTip ?ch ((fromGenesis hk c0 (common @ fresh))\<lparr>ix_status := s\<rparr>)"
    using fromGenesis_onChain [where cl = "common @ fresh" and xs = "[]" and st = st and hk = hk
        and ?c0.0 = c0 and s = s] common
    by (simp add: atTip_def fromGenesis_height chainOf_def)
  moreover have "(fromGenesis hk c0 (common @ fresh))\<lparr>ix_status := s, ix_status := SYNCED\<rparr>
      = fromGenesis hk c0 (common @ fresh)"
    using fromGenesis_status [of hk c0 "common @ fresh"] by simp
  ultimately show ?thesis
    by (subst sync.simps) (simp add: start)
qed

section \<open>Properties of the transaction index\<close>

lemma TXIndexer_hooks [simp]:
  "indexBlock TXIndexer = TXIndexer_indexBlock" "unindexBlock TXIndexer = TXIndexer_unindexBlock"
  by (simp_all add: TXIndexer_def)

lemma txsOf_simps [simp]:
  "txsOf [] = []" "txsOf ((e, b) # cl) = b @ txsOf cl" "txsOf (xs @ ys) = txsOf xs @ txsOf ys"
  by (simp_all add: txsOf_def)








section \<open>Properties of the address index\<close>

lemma AddrIndexer_hooks [simp]:
  "indexBlock AddrIndexer = AddrIndexer_indexBlock"
  "unindexBlock AddrIndexer = AddrIndexer_unindexBlock"
  by (simp_all add: AddrIndexer_def)

subsection \<open>What each loop does to the three parts of the content\<close>

lemma addHash_fold:
  "ac_hashes (foldl (addHash h) c as) =
     (\<lambda>a. if a \<in> set as then insert h (ac_hashes c a) else ac_hashes c a)"
  "ac_coins (foldl (addHash h) c as) = ac_coins c"
  "ac_records (foldl (addHash h) c as) = ac_records c"
  by (induction as arbitrary: c) (auto simp: addHash_def fun_eq_iff)


lemma spendCoin_parts:
  "ac_records (spendCoin c op) = ac_records c" "ac_hashes (spendCoin c op) = ac_hashes c"
  by (simp_all add: spendCoin_def split: option.split)

lemma spendCoin_coins:
  "ac_coins (spendCoin c op) =
     (\<lambda>a. ac_coins c a - {x. x = op \<and> (\<exists>k. ac_records c op = Some k \<and> coin_address k = a)})"
  by (auto simp: spendCoin_def fun_eq_iff split: option.split)

lemma spendCoin_fold:
  "ac_records (foldl spendCoin c ops) = ac_records c"
  "ac_hashes (foldl spendCoin c ops) = ac_hashes c"
  "ac_coins (foldl spendCoin c ops) =
     (\<lambda>a. ac_coins c a - {op \<in> set ops. \<exists>k. ac_records c op = Some k \<and> coin_address k = a})"
proof (induction ops arbitrary: c)
  case Nil
  { case 1 show ?case by simp }
  { case 2 show ?case by simp }
  { case 3 show ?case by simp }
next
  case (Cons op ops)
  { case 1 show ?case by (simp add: Cons.IH spendCoin_parts) }
  { case 2 show ?case by (simp add: Cons.IH spendCoin_parts) }
  { case 3 show ?case
      by (auto simp: Cons.IH spendCoin_parts spendCoin_coins fun_eq_iff) }
qed




lemma addCoin_fold:
  "ac_hashes (foldl (addCoin e t) c is) = ac_hashes c"
  "ac_records (foldl (addCoin e t) c is) =
     (\<lambda>op. if fst op = tx_hash t \<and> snd op \<in> set is then Some (coinOf e t (snd op))
           else ac_records c op)"
  "ac_coins (foldl (addCoin e t) c is) =
     (\<lambda>a. ac_coins c a \<union> {(tx_hash t, i) | i. i \<in> set is \<and> coin_address (coinOf e t i) = a})"
  by (induction "is" arbitrary: c) (auto simp: addCoin_def Let_def fun_eq_iff)



lemma indexTX_parts:
  "ac_hashes (AddrIndexer_indexTX e c t) =
     (\<lambda>a. if a \<in> set (txAddresses c t) then insert (tx_hash t) (ac_hashes c a)
          else ac_hashes c a)"
  "ac_records (AddrIndexer_indexTX e c t) =
     (\<lambda>op. if fst op = tx_hash t \<and> snd op < length (tx_outputs t)
           then Some (coinOf e t (snd op)) else ac_records c op)"
  "ac_coins (AddrIndexer_indexTX e c t) =
     (\<lambda>a. (ac_coins c a
            - {op \<in> set (tx_inputs t). \<exists>k. ac_records c op = Some k \<and> coin_address k = a})
          \<union> {(tx_hash t, i) | i. i < length (tx_outputs t) \<and> coin_address (coinOf e t i) = a})"
  by (simp_all add: AddrIndexer_indexTX_def Let_def addCoin_fold spendCoin_fold addHash_fold
      cong: if_cong)





subsection \<open>The invariant of the content\<close>

lemma addrInv_empty: "addrInv {} {} emptyAddr"
  by (simp add: addrInv_def emptyAddr_def)

lemma addrInvD:
  assumes "addrInv H S c"
  shows "ac_records c op = Some k \<Longrightarrow> fst op \<in> H"
    and "op \<in> ac_coins c a \<Longrightarrow> fst op \<in> H"
    and "x \<in> ac_hashes c a \<Longrightarrow> x \<in> H"
    and "ac_records c op = Some k \<Longrightarrow> op \<notin> S \<Longrightarrow> op \<in> ac_coins c (coin_address k)"
    and "ac_records c op = Some k \<Longrightarrow> (coin_hash k, coin_index k) = op"
  using assms unfolding addrInv_def by blast+

lemma addrInvI:
  assumes "\<And>op k. ac_records c op = Some k \<Longrightarrow> fst op \<in> H"
    and "\<And>a op. op \<in> ac_coins c a \<Longrightarrow> fst op \<in> H"
    and "\<And>a x. x \<in> ac_hashes c a \<Longrightarrow> x \<in> H"
    and "\<And>op k. ac_records c op = Some k \<Longrightarrow> op \<notin> S \<Longrightarrow> op \<in> ac_coins c (coin_address k)"
    and "\<And>op k. ac_records c op = Some k \<Longrightarrow> (coin_hash k, coin_index k) = op"
  shows "addrInv H S c"
  using assms unfolding addrInv_def by blast

lemma addrInv_indexTX:
  assumes inv: "addrInv H S c"
  shows "addrInv (insert (tx_hash t) H) (S \<union> set (tx_inputs t)) (AddrIndexer_indexTX e c t)"
proof (rule addrInvI)
  fix op k assume "ac_records (AddrIndexer_indexTX e c t) op = Some k"
  then show "fst op \<in> insert (tx_hash t) H"
    using addrInvD(1) [OF inv] by (auto simp: indexTX_parts split: if_splits)
next
  fix a op assume "op \<in> ac_coins (AddrIndexer_indexTX e c t) a"
  then show "fst op \<in> insert (tx_hash t) H"
    by (cases op) (auto simp: indexTX_parts dest: addrInvD(2) [OF inv])
next
  fix a x assume "x \<in> ac_hashes (AddrIndexer_indexTX e c t) a"
  then show "x \<in> insert (tx_hash t) H"
    using addrInvD(3) [OF inv] by (auto simp: indexTX_parts split: if_splits)
next
  fix op k
  assume r: "ac_records (AddrIndexer_indexTX e c t) op = Some k"
    and s: "op \<notin> S \<union> set (tx_inputs t)"
  show "op \<in> ac_coins (AddrIndexer_indexTX e c t) (coin_address k)"
  proof (cases "fst op = tx_hash t \<and> snd op < length (tx_outputs t)")
    case True
    with r have "k = coinOf e t (snd op)" by (simp add: indexTX_parts)
    moreover have "op = (tx_hash t, snd op)" using True by (cases op) simp
    ultimately show ?thesis using True by (auto simp: indexTX_parts(3))
  next
    case False
    with r have "ac_records c op = Some k" by (simp add: indexTX_parts)
    with addrInvD(4) [OF inv this] s show ?thesis
      by (simp add: indexTX_parts(3))
  qed
next
  fix op k assume "ac_records (AddrIndexer_indexTX e c t) op = Some k"
  then show "(coin_hash k, coin_index k) = op"
    using addrInvD(5) [OF inv] by (cases op) (auto simp: indexTX_parts coinOf_def split: if_splits)
qed


lemma addrInv_txs:
  "addrInv H S c \<Longrightarrow>
   addrInv (H \<union> tx_hash ` set b) (S \<union> set (concat (map tx_inputs b)))
     (foldl (AddrIndexer_indexTX e) c b)"
proof (induction b arbitrary: H S c)
  case Nil
  then show ?case by simp
next
  case (Cons t b)
  from Cons.IH [OF addrInv_indexTX [OF Cons.prems, of t e]]
  show ?case by (simp add: Un_assoc)
qed



lemma addrInv_content:
  "addrInv H S c \<Longrightarrow>
   addrInv (H \<union> tx_hash ` set (txsOf cl)) (S \<union> set (concat (map tx_inputs (txsOf cl))))
     (contentAfter AddrIndexer c cl)"
proof (induction cl arbitrary: H S c)
  case Nil
  then show ?case by simp
next
  case (Cons x cl)
  obtain e b where x: "x = (e, b)" by (cases x)
  have "addrInv (H \<union> tx_hash ` set b) (S \<union> set (concat (map tx_inputs b)))
      (AddrIndexer_indexBlock c e b)"
    unfolding AddrIndexer_indexBlock_def using Cons.prems by (rule addrInv_txs)
  from Cons.IH [OF this] show ?case
    by (simp add: x image_Un Un_assoc)
qed


section \<open>Facts about the example chains\<close>

lemma mk_hash_eq [simp]: "mk_hash a = mk_hash b \<longleftrightarrow> (word_of_nat a :: 8 word) = word_of_nat b"
  by (simp add: mk_hash_def)

lemma test_canonical: "canonical (test_common @ test_abandoned)" "canonical test_common"
  by code_simp+








section \<open>Detaching and reattaching\<close>

lemma canonical_prefix: "xs \<noteq> [] \<Longrightarrow> canonical (xs @ ys) \<Longrightarrow> canonical xs"
  by (cases xs) (auto simp: canonical_def linked_append)

lemma sync_catches_up:
  assumes "cl \<noteq> []" and "canonical cl"
  shows "sync hk (chainOf (cl @ added) st) ((fromGenesis hk c0 cl)\<lparr>ix_status := s\<rparr>)
    = Some (Inr (fromGenesis hk c0 (cl @ added)))"
  using sync_converges [where common = cl and abandoned = "[]" and fresh = added and st = st
      and hk = hk and ?c0.0 = c0 and s = s] assms
  by (simp add: stores_def)

lemma notifyAll_append:
  "notifyAll hk (xs @ ys) idx =
     (case notifyAll hk xs idx of Some (Inr idx') \<Rightarrow> notifyAll hk ys idx' | r \<Rightarrow> r)"
  by (induction xs arbitrary: idx) (auto split: option.split sum.split)

lemma notifyAll_detached:
  "ix_status idx = DETACHED \<Longrightarrow> notifyAll hk chs idx = Some (Inr idx)"
  by (induction chs) (auto simp: notify_def)

lemma notifyAll_attached:
  assumes "cl \<noteq> []" and "canonical (cl @ added)"
  shows "notifyAll hk (map (\<lambda>n. chainOf (cl @ take n added) st) [1 ..< Suc (length added)])
      (fromGenesis hk c0 cl) = Some (Inr (fromGenesis hk c0 (cl @ added)))"
  using assms(2)
proof (induction added rule: rev_induct)
  case Nil
  show ?case by simp
next
  case (snoc x added)
  have c: "canonical (cl @ added)"
    using canonical_prefix [of "cl @ added" "[x]"] snoc.prems assms(1) by simp
  have "map (\<lambda>n. chainOf (cl @ take n (added @ [x])) st) [1 ..< Suc (length added)]
      = map (\<lambda>n. chainOf (cl @ take n added) st) [1 ..< Suc (length added)]"
    by (rule map_cong) auto
  then have "map (\<lambda>n. chainOf (cl @ take n (added @ [x])) st) [1 ..< Suc (length (added @ [x]))]
      = map (\<lambda>n. chainOf (cl @ take n added) st) [1 ..< Suc (length added)]
        @ [chainOf (cl @ added @ [x]) st]"
    by simp
  moreover have "notify hk (chainOf (cl @ added @ [x]) st) (fromGenesis hk c0 (cl @ added))
      = Some (Inr (fromGenesis hk c0 (cl @ added @ [x])))"
    using sync_catches_up [where cl = "cl @ added" and hk = hk and added = "[x]" and st = st
        and ?c0.0 = c0 and s = SYNCING] assms(1) c
    by (simp add: notify_def fromGenesis_status)
  ultimately show ?case
    using snoc.IH [OF c] by (simp add: notifyAll_append del: upt_Suc)
qed

text \<open>
  Claim C2. An index in step with the chain is detached, the chain advances by the \<open>N\<close>
  blocks \<open>added\<close>, one event each, and the index is attached again. For every \<open>N\<close> the
  sync then ends, with the index marked \<open>SYNCED\<close> (the \<open>'chain tip'\<close> notification), and
  what it leaves is what the index that stayed attached through the same events has: the
  state and content of indexing the longer chain from genesis, the recorded height being
  the chain's. Equal indexes answer every query alike.
\<close>

theorem detach_reattach_same:
  assumes "cl \<noteq> []" and "canonical (cl @ added)"
    and "events = map (\<lambda>n. chainOf (cl @ take n added) st) [1 ..< Suc (length added)]"
  shows "(case notifyAll hk events (detach (fromGenesis hk c0 cl)) of
            Some (Inr idx) \<Rightarrow> attach hk (chainOf (cl @ added) st) idx
          | r \<Rightarrow> r)
       = notifyAll hk events (fromGenesis hk c0 cl)
     \<and> notifyAll hk events (fromGenesis hk c0 cl) = Some (Inr (fromGenesis hk c0 (cl @ added)))
     \<and> ix_height (fromGenesis hk c0 (cl @ added)) = cs_tipHeight (chainOf (cl @ added) st)
     \<and> ix_status (fromGenesis hk c0 (cl @ added)) = SYNCED"
proof -
  have a: "notifyAll hk events (fromGenesis hk c0 cl) = Some (Inr (fromGenesis hk c0 (cl @ added)))"
    unfolding assms(3) using assms(1,2) by (rule notifyAll_attached)
  have "notifyAll hk events (detach (fromGenesis hk c0 cl)) = Some (Inr (detach (fromGenesis hk c0 cl)))"
    by (rule notifyAll_detached) (simp add: detach_def)
  moreover have "attach hk (chainOf (cl @ added) st) (detach (fromGenesis hk c0 cl))
      = Some (Inr (fromGenesis hk c0 (cl @ added)))"
    using sync_catches_up [where cl = cl and hk = hk and added = added and st = st
        and ?c0.0 = c0 and s = SYNCING] assms(1)
      canonical_prefix [OF assms(1,2)]
    by (simp add: attach_def detach_def)
  ultimately show ?thesis
    using a assms(1) by (simp add: fromGenesis_height fromGenesis_status chainOf_def)
qed

theorem detach_reattach_same_witness:
  "attach AddrIndexer (chainOf (take 11 test_common @ drop 11 test_common) Map.empty)
      (detach (fromGenesis AddrIndexer emptyAddr (take 11 test_common)))
    = Some (Inr (fromGenesis AddrIndexer emptyAddr (take 11 test_common @ drop 11 test_common)))
   \<and> notifyAll AddrIndexer
        (map (\<lambda>n. chainOf (take 11 test_common @ take n (drop 11 test_common)) Map.empty)
          [1 ..< Suc (length (drop 11 test_common))])
        (fromGenesis AddrIndexer emptyAddr (take 11 test_common))
    = Some (Inr (fromGenesis AddrIndexer emptyAddr (take 11 test_common @ drop 11 test_common)))
   \<and> length (drop 11 test_common) = 10
   \<and> ix_height (fromGenesis AddrIndexer emptyAddr (take 11 test_common @ drop 11 test_common)) = 20"
proof -
  let ?cl = "take 11 test_common" and ?added = "drop 11 test_common"
  let ?events = "map (\<lambda>n. chainOf (?cl @ take n ?added) Map.empty) [1 ..< Suc (length ?added)]"
  have ne: "?cl \<noteq> []" by (simp add: test_common_def)
  have c: "canonical (?cl @ ?added)" using test_canonical(2) by simp
  have n: "length ?added = 10" by (simp add: test_common_def)
  have tip: "cs_tipHeight (chainOf (?cl @ ?added) Map.empty) = 20"
    by (simp add: chainOf_def test_common_def)
  have d: "notifyAll AddrIndexer ?events (detach (fromGenesis AddrIndexer emptyAddr ?cl))
    = Some (Inr (detach (fromGenesis AddrIndexer emptyAddr ?cl)))"
    by (rule notifyAll_detached) (simp add: detach_def)
  note t = detach_reattach_same [OF ne c refl, of AddrIndexer Map.empty emptyAddr]
  from t d have "attach AddrIndexer (chainOf (?cl @ ?added) Map.empty)
      (detach (fromGenesis AddrIndexer emptyAddr ?cl))
    = Some (Inr (fromGenesis AddrIndexer emptyAddr (?cl @ ?added)))"
    by simp
  moreover from t have "notifyAll AddrIndexer ?events (fromGenesis AddrIndexer emptyAddr ?cl)
    = Some (Inr (fromGenesis AddrIndexer emptyAddr (?cl @ ?added)))"
    by simp
  moreover from t tip
  have "ix_height (fromGenesis AddrIndexer emptyAddr (?cl @ ?added)) = 20"
    by simp
  ultimately show ?thesis using n by blast
qed

section \<open>Reorganization\<close>

lemma addrInv_genesis:
  "addrInv (tx_hash ` set (txsOf cl)) (set (concat (map tx_inputs (txsOf cl))))
     (contentAfter AddrIndexer emptyAddr cl)"
  using addrInv_content [OF addrInv_empty, of cl] by simp



subsection \<open>Chains of coinbase blocks\<close>





subsection \<open>The abandoned blocks can be undone\<close>






section \<open>Spends within a block\<close>

lemma lessFrom_numeral:
  "lessFrom (numeral n) ha hb =
     (if byteLess (byteAt ha (pred_numeral n)) (byteAt hb (pred_numeral n)) then True
      else if byteLess (byteAt hb (pred_numeral n)) (byteAt ha (pred_numeral n)) then False
      else lessFrom (pred_numeral n) ha hb)"
  by (simp add: numeral_eq_Suc)

lemma indexTX_other_record:
  "tx_hash t \<noteq> h \<Longrightarrow> ac_records (AddrIndexer_indexTX e c t) (h, i) = ac_records c (h, i)"
  by (simp add: indexTX_parts)

lemma indexTX_other_coin:
  "tx_hash t \<noteq> h \<Longrightarrow> (h, i) \<notin> ac_coins c a \<Longrightarrow> (h, i) \<notin> ac_coins (AddrIndexer_indexTX e c t) a"
  by (simp add: indexTX_parts)

lemma indexTXs_other_record:
  "h \<notin> tx_hash ` set ts \<Longrightarrow>
   ac_records (foldl (AddrIndexer_indexTX e) c ts) (h, i) = ac_records c (h, i)"
  by (induction ts arbitrary: c) (auto simp: indexTX_other_record)

lemma indexTXs_other_coin:
  "h \<notin> tx_hash ` set ts \<Longrightarrow> (h, i) \<notin> ac_coins c a \<Longrightarrow>
   (h, i) \<notin> ac_coins (foldl (AddrIndexer_indexTX e) c ts) a"
  by (induction ts arbitrary: c) (auto simp: indexTX_other_coin)

lemma indexTX_own_record:
  "i < length (tx_outputs t) \<Longrightarrow>
   ac_records (AddrIndexer_indexTX e c t) (tx_hash t, i) = Some (coinOf e t i)"
  by (simp add: indexTX_parts)

lemma indexTX_spends:
  "ac_records c op = Some k \<Longrightarrow> op \<in> set (tx_inputs t) \<Longrightarrow> fst op \<noteq> tx_hash t \<Longrightarrow>
   op \<notin> ac_coins (AddrIndexer_indexTX e c t) (coin_address k)"
  by (cases op) (auto simp: indexTX_parts)

lemma contentAfter_append:
  "contentAfter hk c (xs @ ys) = contentAfter hk (contentAfter hk c xs) ys"
  by (induction xs arbitrary: c) auto

lemma indexTX_own_coin:
  "\<forall>a. (tx_hash t, i) \<notin> ac_coins c a \<Longrightarrow> a \<noteq> snd (tx_outputs t ! i) \<Longrightarrow>
   (tx_hash t, i) \<notin> ac_coins (AddrIndexer_indexTX e c t) a"
  by (auto simp: indexTX_parts coinOf_def)

lemma spend_in_block:
  assumes b: "b = pre @ [A] @ mid @ [B] @ post"
    and i: "i < length (tx_outputs A)"
    and sp: "(tx_hash A, i) \<in> set (tx_inputs B)"
    and later: "tx_hash A \<notin> tx_hash ` set (mid @ [B] @ post)"
    and before: "\<forall>a. (tx_hash A, i) \<notin> ac_coins (foldl (AddrIndexer_indexTX e) c pre) a"
  shows "ac_records (AddrIndexer_indexBlock c e b) (tx_hash A, i) = Some (coinOf e A i)"
    and "(tx_hash A, i) \<notin> ac_coins (AddrIndexer_indexBlock c e b) a"
proof -
  let ?f = "AddrIndexer_indexTX e"
  let ?cA = "?f (foldl ?f c pre) A"
  let ?cm = "foldl ?f ?cA mid"
  let ?cB = "?f ?cm B"
  have blk: "AddrIndexer_indexBlock c e b = foldl ?f ?cB post"
    by (simp add: AddrIndexer_indexBlock_def b)
  have rA: "ac_records ?cA (tx_hash A, i) = Some (coinOf e A i)"
    using i by (rule indexTX_own_record)
  have lm: "tx_hash A \<notin> tx_hash ` set mid" and lp: "tx_hash A \<notin> tx_hash ` set post"
    and hB: "tx_hash B \<noteq> tx_hash A"
    using later by auto
  have rm: "ac_records ?cm (tx_hash A, i) = Some (coinOf e A i)"
    using rA by (simp add: indexTXs_other_record [OF lm])
  have rB: "ac_records ?cB (tx_hash A, i) = Some (coinOf e A i)"
    using hB rm by (simp add: indexTX_other_record)
  show "ac_records (AddrIndexer_indexBlock c e b) (tx_hash A, i) = Some (coinOf e A i)"
    unfolding blk using rB by (simp add: indexTXs_other_record [OF lp])
  have cB: "(tx_hash A, i) \<notin> ac_coins ?cB a"
  proof (cases "a = snd (tx_outputs A ! i)")
    case True
    have "(tx_hash A, i) \<notin> ac_coins ?cB (coin_address (coinOf e A i))"
      using rm sp hB by (intro indexTX_spends) auto
    with True show ?thesis by (simp add: coinOf_def)
  next
    case False
    with before have "(tx_hash A, i) \<notin> ac_coins ?cA a"
      by (intro indexTX_own_coin)
    with lm have "(tx_hash A, i) \<notin> ac_coins ?cm a"
      by (rule indexTXs_other_coin)
    then show ?thesis
      using hB by (intro indexTX_other_coin)
  qed
  show "(tx_hash A, i) \<notin> ac_coins (AddrIndexer_indexBlock c e b) a"
    unfolding blk using lp cB by (rule indexTXs_other_coin)
qed

text \<open>
  Claim C3. A block holds a transaction \<open>A\<close> and, after it, a transaction \<open>B\<close> that
  spends output \<open>i\<close> of \<open>A\<close>; the hash of \<open>A\<close> is that of no other transaction of
  the block or of the chain below. When the address index connects the block, in block
  order, to the content of that chain, the coin of the output is recorded and marked
  spent: it is among the coins of no address, and no query returns it. Nothing is asked
  of the order of the two hashes: this holds as well when \<open>less(B, A)\<close>.
\<close>

theorem intra_block_spend:
  assumes b: "b = pre @ [A] @ mid @ [B] @ post"
    and i: "i < length (tx_outputs A)"
    and sp: "(tx_hash A, i) \<in> set (tx_inputs B)"
    and uniq: "tx_hash A \<notin> tx_hash ` (set (txsOf (tl cl)) \<union> set pre \<union> set mid \<union> {B} \<union> set post)"
    and idx: "idx = connectBlock AddrIndexer (fromGenesis AddrIndexer emptyAddr cl) e b"
  shows "ac_records (ix_content idx) (tx_hash A, i) = Some (coinOf e A i)
    \<and> (\<forall>a. (tx_hash A, i) \<notin> ac_coins (ix_content idx) a)
    \<and> (\<forall>k\<in>AddrIndexer_getCoinsByAddress idx addrs.
          (coin_hash k, coin_index k) \<noteq> (tx_hash A, i))"
proof -
  let ?c = "contentAfter AddrIndexer emptyAddr (tl cl)"
  have c: "ix_content idx = AddrIndexer_indexBlock ?c e b"
    by (simp add: idx connectBlock_def fromGenesis_content)
  have later: "tx_hash A \<notin> tx_hash ` set (mid @ [B] @ post)"
    using uniq by auto
  have "addrInv (tx_hash ` set (txsOf (tl cl)) \<union> tx_hash ` set pre)
      (set (concat (map tx_inputs (txsOf (tl cl)))) \<union> set (concat (map tx_inputs pre)))
      (foldl (AddrIndexer_indexTX e) ?c pre)"
    using addrInv_genesis by (rule addrInv_txs)
  from addrInvD(2) [OF this]
  have before: "\<forall>a. (tx_hash A, i) \<notin> ac_coins (foldl (AddrIndexer_indexTX e) ?c pre) a"
    using uniq by fastforce
  have r: "ac_records (ix_content idx) (tx_hash A, i) = Some (coinOf e A i)"
    unfolding c using b i sp later before by (rule spend_in_block)
  have s: "(tx_hash A, i) \<notin> ac_coins (ix_content idx) a" for a
    unfolding c using b i sp later before by (rule spend_in_block)
  have "ix_content idx = contentAfter AddrIndexer emptyAddr (tl cl @ [(e, b)])"
    by (simp add: c contentAfter_append)
  then have inv: "addrInv (tx_hash ` set (txsOf (tl cl @ [(e, b)])))
      (set (concat (map tx_inputs (txsOf (tl cl @ [(e, b)]))))) (ix_content idx)"
    using addrInv_genesis [of "tl cl @ [(e, b)]"] by simp
  have "(coin_hash k, coin_index k) \<noteq> (tx_hash A, i)"
    if "k \<in> AddrIndexer_getCoinsByAddress idx addrs" for k
  proof -
    from that obtain a op where a: "op \<in> ac_coins (ix_content idx) a"
      and k: "ac_records (ix_content idx) op = Some k"
      by (auto simp: AddrIndexer_getCoinsByAddress_def coinsOf_def)
    from addrInvD(5) [OF inv k] a s [of a] show ?thesis by auto
  qed
  with r s show ?thesis by blast
qed

theorem intra_block_spend_witness:
  "less_tx ex_B ex_A
   \<and> ac_records (ix_content ex_idx) (mk_hash 9, 0) = Some (coinOf (ex_entry 104 4 103) ex_A 0)
   \<and> (mk_hash 9, 0) \<notin> ac_coins (ix_content ex_idx) ''alice''"
proof -
  have l: "less_tx ex_B ex_A"
    by (simp add: less_tx_def ex_A_def ex_B_def mk_hash_def lessFrom_numeral byteAt_def
        byteLess_def)
  have b: "[ex_cb 14 ''miner'', ex_A, ex_B] = [ex_cb 14 ''miner''] @ [ex_A] @ [] @ [ex_B] @ []"
    by simp
  have i: "0 < length (tx_outputs ex_A)" by (simp add: ex_A_def)
  have sp: "(tx_hash ex_A, 0) \<in> set (tx_inputs ex_B)" by (simp add: ex_A_def ex_B_def)
  have u: "tx_hash ex_A \<notin> tx_hash ` (set (txsOf (tl (ex_common @ ex_abandoned)))
      \<union> set [ex_cb 14 ''miner''] \<union> set [] \<union> {ex_B} \<union> set [])"
    by (simp add: ex_A_def ex_B_def ex_cb_def ex_common_def ex_abandoned_def)
  from intra_block_spend [OF b i sp u ex_idx_def, of "[]"] l
  show ?thesis by (simp add: ex_A_def)
qed

end
